theory Spec2Isabelle
  imports Complex_Main "HOL-Library.AList" "HOL-Library.Log_Nat"
begin

section \<open>Path-addressed get, set and delete on nested form values\<close>

text \<open>
  This theory embeds \<^verbatim>\<open>src/internal/deep-copy.ts\<close>: \<^verbatim>\<open>splitPath\<close>, \<^verbatim>\<open>isIndex\<close>,
  \<^verbatim>\<open>getIn\<close>, \<^verbatim>\<open>setIn\<close> and \<^verbatim>\<open>deleteIn\<close> with its inner \<^verbatim>\<open>deleteNode\<close>.

  The file is an ECMAScript module, so it runs in strict mode. The operations of the
  language it uses (conversion of a string to a number and back, property read, write and
  delete, truthiness, \<^verbatim>\<open>Array.isArray\<close>, \<^verbatim>\<open>typeof\<close>, \<^verbatim>\<open>Object.keys\<close>) are modelled first,
  the five functions of the file after them.
\<close>

subsection \<open>Numbers and their conversion from and to strings\<close>

text \<open>
  A Number is a double. Finite values are kept as the rational they denote; the negative
  zero is a value of its own. \<^verbatim>\<open>+s\<close> is \<open>strToNumber s\<close> (the grammar of numeric string
  literals, then rounding to the nearest double, ties to even) and \<^verbatim>\<open>String(x)\<close> is
  \<open>numToString x\<close> (the shortest decimal digits that read back as \<open>x\<close>).
\<close>

datatype jsnum = NaN | PosInf | NegInf | NegZero | Fin rat

definition pow :: "nat \<Rightarrow> int \<Rightarrow> rat" where
  "pow b z = (if 0 \<le> z then of_nat b ^ nat z else 1 / of_nat b ^ nat (- z))"

definition ilog :: "nat \<Rightarrow> rat \<Rightarrow> int" where
  \<comment> \<open>for \<open>0 < q\<close> and \<open>1 < b\<close>: the integer \<open>e\<close> with \<open>b ^ e \<le> q < b ^ (e + 1)\<close>\<close>
  "ilog b q =
     (let (n, d) = quotient_of q;
          e = int (floorlog b (nat n)) - int (floorlog b (nat d))
      in if pow b e \<le> q then e else e - 1)"

definition roundHalfEven :: "rat \<Rightarrow> int" where
  "roundHalfEven m =
     (let f = \<lfloor>m\<rfloor>; r = m - of_int f
      in if r < 1 / 2 then f else if 1 / 2 < r then f + 1 else if even f then f else f + 1)"

definition roundDouble :: "rat \<Rightarrow> jsnum" where
  \<comment> \<open>the double nearest to a positive rational: 53 significant bits, exponents from
      \<open>-1074\<close>, overflow to infinity\<close>
  "roundDouble q =
     (let p = max (ilog 2 q - 52) (- 1074);
          x = of_int (roundHalfEven (q / pow 2 p)) * pow 2 p
      in if pow 2 1024 \<le> x then PosInf else Fin x)"

definition negate :: "jsnum \<Rightarrow> jsnum" where
  "negate x = (case x of NaN \<Rightarrow> NaN | PosInf \<Rightarrow> NegInf | NegInf \<Rightarrow> PosInf
     | NegZero \<Rightarrow> Fin 0 | Fin q \<Rightarrow> (if q = 0 then NegZero else Fin (- q)))"

definition isDigit :: "char \<Rightarrow> bool" where
  "isDigit c = (c \<in> set ''0123456789'')"

definition digitOf :: "char \<Rightarrow> nat" where
  "digitOf c =
     (let n = (of_char c :: nat)
      in if 48 \<le> n \<and> n \<le> 57 then n - 48
         else if 97 \<le> n \<and> n \<le> 102 then n - 87
         else if 65 \<le> n \<and> n \<le> 70 then n - 55
         else 16)"

definition digitsValue :: "nat \<Rightarrow> string \<Rightarrow> nat" where
  "digitsValue b ds = foldl (\<lambda>a c. b * a + digitOf c) 0 ds"

definition isWhiteSpace :: "char \<Rightarrow> bool" where
  "isWhiteSpace c = ((of_char c :: nat) \<in> {9, 10, 11, 12, 13, 32, 160})"

definition trim :: "string \<Rightarrow> string" where
  "trim s = rev (dropWhile isWhiteSpace (rev (dropWhile isWhiteSpace s)))"

definition toNumber :: "rat \<Rightarrow> jsnum" where
  \<comment> \<open>the Number of a non-negative mathematical value\<close>
  "toNumber q = (if q = 0 then Fin 0 else roundDouble q)"

definition exponentPart :: "string \<Rightarrow> int option" where
  \<comment> \<open>nothing, or \<^verbatim>\<open>e\<close> or \<^verbatim>\<open>E\<close>, an optional sign and at least one digit\<close>
  "exponentPart s =
     (case s of
        [] \<Rightarrow> Some 0
      | c # r \<Rightarrow>
          if c = CHR ''e'' \<or> c = CHR ''E'' then
            (let neg = (r \<noteq> [] \<and> hd r = CHR ''-'');
                 ds = (if r \<noteq> [] \<and> (hd r = CHR ''+'' \<or> hd r = CHR ''-'') then tl r else r)
             in if ds \<noteq> [] \<and> list_all isDigit ds
                then Some (if neg then - int (digitsValue 10 ds) else int (digitsValue 10 ds))
                else None)
          else None)"

definition unsignedDecimal :: "string \<Rightarrow> jsnum" where
  \<comment> \<open>\<^verbatim>\<open>Infinity\<close>, or digits with an optional fraction and exponent\<close>
  "unsignedDecimal s =
     (if s = ''Infinity'' then PosInf
      else
        let ip = takeWhile isDigit s; r1 = dropWhile isDigit s;
            dot = (r1 \<noteq> [] \<and> hd r1 = CHR ''.'');
            fp = (if dot then takeWhile isDigit (tl r1) else []);
            r2 = (if dot then dropWhile isDigit (tl r1) else r1)
        in if ip = [] \<and> fp = [] then NaN
           else (case exponentPart r2 of
                   None \<Rightarrow> NaN
                 | Some e \<Rightarrow>
                     toNumber (of_nat (digitsValue 10 (ip @ fp)) * pow 10 (e - int (length fp)))))"

definition radixLiteral :: "string \<Rightarrow> jsnum option" where
  \<comment> \<open>\<^verbatim>\<open>0x\<close>, \<^verbatim>\<open>0o\<close> and \<^verbatim>\<open>0b\<close> literals, which take no sign\<close>
  "radixLiteral s =
     (case s of
        c0 # c1 # ds \<Rightarrow>
          (let b = (if c1 = CHR ''x'' \<or> c1 = CHR ''X'' then 16
                    else if c1 = CHR ''o'' \<or> c1 = CHR ''O'' then 8
                    else if c1 = CHR ''b'' \<or> c1 = CHR ''B'' then 2 else (0::nat))
           in if c0 = CHR ''0'' \<and> b \<noteq> 0 then
                Some (if ds \<noteq> [] \<and> list_all (\<lambda>c. digitOf c < b) ds
                      then toNumber (of_nat (digitsValue b ds)) else NaN)
              else None)
      | _ \<Rightarrow> None)"

definition strToNumber :: "string \<Rightarrow> jsnum" where
  "strToNumber s =
     (let t = trim s
      in if t = [] then Fin 0
         else (case radixLiteral t of
                 Some x \<Rightarrow> x
               | None \<Rightarrow>
                   if hd t = CHR ''-'' then negate (unsignedDecimal (tl t))
                   else if hd t = CHR ''+'' then unsignedDecimal (tl t)
                   else unsignedDecimal t))"

definition digitChar :: "nat \<Rightarrow> char" where
  \<comment> \<open>used below 10 only\<close>
  "digitChar d = ''0123456789'' ! d"

fun decimal :: "nat \<Rightarrow> string" where
  "decimal n = (if n < 10 then [digitChar n] else decimal (n div 10) @ [digitChar (n mod 10)])"

definition candidate :: "rat \<Rightarrow> nat \<Rightarrow> (nat \<times> int) option" where
  \<comment> \<open>digits \<open>s\<close> with \<open>k\<close> places and the exponent \<open>n\<close> such that \<open>s * 10 ^ (n - k)\<close> rounds to
      \<open>x\<close>: the one nearest to \<open>x\<close>, if there is one\<close>
  "candidate x k =
     (let n = ilog 10 x + 1; sc = pow 10 (n - int k);
          lo = \<lfloor>x / sc\<rfloor>; hi = lo + 1;
          okLo = (toNumber (of_int lo * sc) = Fin x);
          okHi = (toNumber (of_int hi * sc) = Fin x);
          up = (if hi = 10 ^ k then (10 ^ (k - 1), n + 1) else (nat hi, n))
      in if okLo \<and> okHi then
           (if x - of_int lo * sc < of_int hi * sc - x \<or>
               (x - of_int lo * sc = of_int hi * sc - x \<and> even lo)
            then Some (nat lo, n) else Some up)
         else if okLo then Some (nat lo, n)
         else if okHi then Some up
         else None)"

definition shortest :: "rat \<Rightarrow> (nat \<times> nat \<times> int) option" where
  \<comment> \<open>the least number of places \<open>k\<close> that has a candidate; for a double, 17 places always
      suffice\<close>
  "shortest x =
     (case List.find (\<lambda>k. candidate x k \<noteq> None) [1..<18] of
        None \<Rightarrow> None
      | Some k \<Rightarrow> (case candidate x k of None \<Rightarrow> None | Some (s, n) \<Rightarrow> Some (k, s, n)))"

definition positiveToString :: "rat \<Rightarrow> string" where
  "positiveToString x =
     (case shortest x of
        None \<Rightarrow> []
      | Some (k, s, n) \<Rightarrow>
          let ds = decimal s in
          if int k \<le> n \<and> n \<le> 21 then ds @ replicate (nat (n - int k)) CHR ''0''
          else if 0 < n \<and> n \<le> 21 then take (nat n) ds @ ''.'' @ drop (nat n) ds
          else if - 6 < n \<and> n \<le> 0 then ''0.'' @ replicate (nat (- n)) CHR ''0'' @ ds
          else
            (let e = (if 0 \<le> n - 1 then ''+'' else ''-'') @ decimal (nat \<bar>n - 1\<bar>)
             in if k = 1 then ds @ ''e'' @ e
                else take 1 ds @ ''.'' @ drop 1 ds @ ''e'' @ e))"

definition numToString :: "jsnum \<Rightarrow> string" where
  "numToString x =
     (case x of
        NaN \<Rightarrow> ''NaN''
      | PosInf \<Rightarrow> ''Infinity''
      | NegInf \<Rightarrow> ''-Infinity''
      | NegZero \<Rightarrow> ''0''
      | Fin q \<Rightarrow>
          if q = 0 then ''0''
          else if q < 0 then ''-'' @ positiveToString (- q)
          else positiveToString q)"

subsection \<open>The helpers of the file\<close>

fun splitPath :: "string \<Rightarrow> string list" where
  \<comment> \<open>\<^verbatim>\<open>p.split(".")\<close>: never empty, and the empty string gives one empty segment\<close>
  "splitPath [] = [[]]"
| "splitPath (c # cs) =
     (if c = CHR ''.'' then [] # splitPath cs
      else (case splitPath cs of [] \<Rightarrow> [[c]] | s # ss \<Rightarrow> (c # s) # ss))"

definition isIndex :: "string \<Rightarrow> bool" where
  \<comment> \<open>\<^verbatim>\<open>String(+s) === s\<close>\<close>
  "isIndex s = (numToString (strToNumber s) = s)"

text \<open>
  The specification's wording of an index segment, to compare \<open>isIndex\<close> with: the segment
  is the canonical decimal representation of a non-negative integer, that is, it consists
  of decimal digits, and writing the integer they denote in decimal gives the segment back.
\<close>

definition specIndexSegment :: "string \<Rightarrow> bool" where
  "specIndexSegment s = (s \<noteq> [] \<and> list_all isDigit s \<and> decimal (digitsValue 10 s) = s)"

subsection \<open>Values\<close>

text \<open>
  The values are the caller's form data: trees of objects and arrays over the primitive
  values, every container held by one slot of one parent. An object is its own properties
  in the order of their creation. An array is its \<^verbatim>\<open>length\<close> and its own properties: the
  elements are the properties whose key is an array index, a missing one is a hole, and a
  key that is no array index is an ordinary property of the array. The functions of the
  file only count the keys of a container, so the order of the keys is never observed.
  What is not data of the form is not part of a value: the members a value inherits from
  the built-in prototypes, \<^verbatim>\<open>length\<close> as a property, and the characters of a string as
  its properties. So \<open>getProp\<close>, \<open>store\<close> and \<open>delProp\<close> below are \<^verbatim>\<open>x[k]\<close>, \<^verbatim>\<open>x[k] = v\<close> and
  \<^verbatim>\<open>delete x[k]\<close> for a key \<open>k\<close> that names no such member; the names of these members are
  listed as \<open>builtinNames\<close>, and a property of the code that depends on the key being an
  ordinary one is stated for the paths without such a name (\<open>dataPath\<close>).

  The functions of the file update the root in place. Here each of them returns the node
  it was given as the call leaves it, and a parent takes the updated child back into the
  slot that holds it (\<open>withChild\<close>); a value bound to a local variable only, and stored in
  no slot, is not part of the result.
\<close>

datatype val =
    Undefined
  | Null
  | Bool bool
  | Num jsnum
  | Str string
  | Obj "(string \<times> val) list"
  | Arr nat "(string \<times> val) list"

datatype error =
    ExpectedArray  \<comment> \<open>\<^verbatim>\<open>new Error("setIn: expected array container")\<close>\<close>
  | TypeError      \<comment> \<open>raised by the language: a property of \<^verbatim>\<open>null\<close> or \<^verbatim>\<open>undefined\<close> is
                       read, or, in strict mode, a property is assigned on a primitive value
                       or the \<^verbatim>\<open>length\<close> of an array is deleted\<close>

definition isNullish :: "val \<Rightarrow> bool" where
  \<comment> \<open>\<^verbatim>\<open>x == null\<close>\<close>
  "isNullish x = (x = Undefined \<or> x = Null)"

fun truthy :: "val \<Rightarrow> bool" where
  "truthy Undefined = False"
| "truthy Null = False"
| "truthy (Bool b) = b"
| "truthy (Num n) = (n \<noteq> NaN \<and> n \<noteq> Fin 0 \<and> n \<noteq> NegZero)"
| "truthy (Str s) = (s \<noteq> [])"
| "truthy (Obj ps) = True"
| "truthy (Arr n ps) = True"

fun isArray :: "val \<Rightarrow> bool" where
  \<comment> \<open>\<^verbatim>\<open>Array.isArray(x)\<close>\<close>
  "isArray (Arr n ps) = True"
| "isArray _ = False"

fun isObject :: "val \<Rightarrow> bool" where
  \<comment> \<open>\<^verbatim>\<open>typeof x === "object" && x !== null\<close>: an object or an array\<close>
  "isObject (Obj ps) = True"
| "isObject (Arr n ps) = True"
| "isObject _ = False"

fun keyCount :: "val \<Rightarrow> nat" where
  \<comment> \<open>\<^verbatim>\<open>Object.keys(x).length\<close>\<close>
  "keyCount (Obj ps) = length ps"
| "keyCount (Arr n ps) = length ps"
| "keyCount _ = 0"

definition propKey :: "string \<Rightarrow> string" where
  \<comment> \<open>the property key of \<^verbatim>\<open>x[+segment]\<close>: the number \<^verbatim>\<open>+segment\<close> as a string\<close>
  "propKey segment = numToString (strToNumber segment)"

definition arrayIndex :: "string \<Rightarrow> nat option" where
  \<comment> \<open>a key is an array index when it is the string of an integer from 0 to \<open>2^32 - 2\<close>\<close>
  "arrayIndex k =
     (case strToNumber k of
        Fin q \<Rightarrow>
          if numToString (Fin q) = k \<and> q = of_int \<lfloor>q\<rfloor> \<and> 0 \<le> q \<and> q < 4294967295
          then Some (nat \<lfloor>q\<rfloor>) else None
      | _ \<Rightarrow> None)"

fun getProp :: "val \<Rightarrow> string \<Rightarrow> val" where
  \<comment> \<open>\<^verbatim>\<open>x?.[k]\<close>, for a key that names no built-in member of \<open>x\<close>\<close>
  "getProp (Obj ps) k = (case map_of ps k of None \<Rightarrow> Undefined | Some v \<Rightarrow> v)"
| "getProp (Arr n ps) k = (case map_of ps k of None \<Rightarrow> Undefined | Some v \<Rightarrow> v)"
| "getProp _ k = Undefined"

fun store :: "val \<Rightarrow> string \<Rightarrow> val \<Rightarrow> val" where
  \<comment> \<open>\<^verbatim>\<open>x[k] = v\<close> on an object or an array, for a key that names no built-in member; an
      array grows to hold an array index\<close>
  "store (Obj ps) k v = Obj (AList.update k v ps)"
| "store (Arr n ps) k v =
     Arr (case arrayIndex k of None \<Rightarrow> n | Some i \<Rightarrow> max n (i + 1)) (AList.update k v ps)"
| "store x k v = x"

definition setProp :: "val \<Rightarrow> string \<Rightarrow> val \<Rightarrow> error + val" where
  \<comment> \<open>\<^verbatim>\<open>x[k] = v\<close> on any value\<close>
  "setProp x k v = (if isObject x then Inr (store x k v) else Inl TypeError)"

fun delProp :: "val \<Rightarrow> string \<Rightarrow> val" where
  \<comment> \<open>\<^verbatim>\<open>delete x[k]\<close> on an object or an array, when it returns (\<open>delPropE\<close> below has the
      raise): an array keeps its length\<close>
  "delProp (Obj ps) k = Obj (AList.delete k ps)"
| "delProp (Arr n ps) k = Arr n (AList.delete k ps)"
| "delProp x k = x"

fun withChild :: "val \<Rightarrow> string \<Rightarrow> val \<Rightarrow> val" where
  \<comment> \<open>the container whose slot \<open>k\<close> holds a child that was updated in place\<close>
  "withChild (Obj ps) k c = Obj (AList.update k c ps)"
| "withChild (Arr n ps) k c = Arr n (AList.update k c ps)"
| "withChild x k c = x"

subsection \<open>Built-in members\<close>

text \<open>
  Besides its own data properties, a value of the language has the members of its
  prototype chain (\<^verbatim>\<open>Object.prototype\<close> for an object; \<^verbatim>\<open>Array.prototype\<close>,
  \<^verbatim>\<open>String.prototype\<close>, \<^verbatim>\<open>Number.prototype\<close> and \<^verbatim>\<open>Boolean.prototype\<close>, each followed by
  \<^verbatim>\<open>Object.prototype\<close>, for an array, a string, a number and a boolean), and an array and
  a string have \<^verbatim>\<open>length\<close>. With such a name as its key, \<^verbatim>\<open>x[k]\<close> reads the member (a
  function, the prototype, the length), \<^verbatim>\<open>x[k] = v\<close> may run a setter (\<^verbatim>\<open>__proto__\<close>) or raise
  \<^verbatim>\<open>RangeError\<close> (the \<^verbatim>\<open>length\<close> of an array), and \<^verbatim>\<open>delete x[k]\<close> raises \<^verbatim>\<open>TypeError\<close> on the
  \<^verbatim>\<open>length\<close> of an array. The names are those of ECMAScript 2025 with its Annex B.
\<close>

definition objectMembers :: "string list" where
  \<comment> \<open>the properties of \<^verbatim>\<open>Object.prototype\<close>\<close>
  "objectMembers =
    [''constructor'', ''__defineGetter__'', ''__defineSetter__'', ''hasOwnProperty'',
     ''__lookupGetter__'', ''__lookupSetter__'', ''isPrototypeOf'',
     ''propertyIsEnumerable'', ''toString'', ''valueOf'', ''__proto__'', ''toLocaleString'']"

definition arrayMembers :: "string list" where
  \<comment> \<open>\<^verbatim>\<open>length\<close> and the further properties of \<^verbatim>\<open>Array.prototype\<close>\<close>
  "arrayMembers =
    [''length'', ''at'', ''concat'', ''copyWithin'', ''fill'', ''find'', ''findIndex'',
     ''findLast'', ''findLastIndex'', ''lastIndexOf'', ''pop'', ''push'', ''reverse'',
     ''shift'', ''unshift'', ''slice'', ''sort'', ''splice'', ''includes'', ''indexOf'',
     ''join'', ''keys'', ''entries'', ''values'', ''forEach'', ''filter'', ''flat'',
     ''flatMap'', ''map'', ''every'', ''some'', ''reduce'', ''reduceRight'',
     ''toReversed'', ''toSorted'', ''toSpliced'', ''with'']"

definition stringMembers :: "string list" where
  \<comment> \<open>the further properties of \<^verbatim>\<open>String.prototype\<close>\<close>
  "stringMembers =
    [''anchor'', ''big'', ''blink'', ''bold'', ''charAt'', ''charCodeAt'', ''codePointAt'',
     ''endsWith'', ''fontcolor'', ''fontsize'', ''fixed'', ''isWellFormed'', ''italics'',
     ''link'', ''localeCompare'', ''match'', ''matchAll'', ''normalize'', ''padEnd'',
     ''padStart'', ''repeat'', ''replace'', ''replaceAll'', ''search'', ''small'',
     ''split'', ''strike'', ''sub'', ''substr'', ''substring'', ''sup'', ''startsWith'',
     ''toWellFormed'', ''trim'', ''trimStart'', ''trimLeft'', ''trimEnd'', ''trimRight'',
     ''toLocaleLowerCase'', ''toLocaleUpperCase'', ''toLowerCase'', ''toUpperCase'']"

definition numberMembers :: "string list" where
  \<comment> \<open>the further properties of \<^verbatim>\<open>Number.prototype\<close>; \<^verbatim>\<open>Boolean.prototype\<close> has no further one\<close>
  "numberMembers = [''toExponential'', ''toFixed'', ''toPrecision'']"

definition builtinNames :: "string list" where
  "builtinNames = objectMembers @ arrayMembers @ stringMembers @ numberMembers"

definition builtinName :: "string \<Rightarrow> bool" where
  \<comment> \<open>the key names a member that some value has besides its own data properties\<close>
  "builtinName k = (k \<in> set builtinNames)"

definition dataPath :: "string \<Rightarrow> bool" where
  \<comment> \<open>no segment of the path names a built-in member\<close>
  "dataPath path = list_all (\<lambda>segment. \<not> builtinName segment) (splitPath path)"

subsection \<open>getIn\<close>

fun getLoop :: "val \<Rightarrow> string list \<Rightarrow> val" where
  "getLoop current [] = current"
| "getLoop current (segment # rest) =
     (if isNullish current then Undefined
      else getLoop (if isIndex segment then getProp current (propKey segment)
                    else getProp current segment) rest)"

definition getIn :: "val \<Rightarrow> string \<Rightarrow> val" where
  "getIn obj path = getLoop obj (splitPath path)"

subsection \<open>setIn\<close>

text \<open>
  A call returns the error it raised, if any, and the node as the call leaves it. At the
  last segment, when it is an index and \<^verbatim>\<open>current\<close> is no array, the source binds a new array
  to the local variable \<^verbatim>\<open>current\<close> and assigns into that: \<open>lastIndexStep\<close> returns the node
  and the array the local variable ends with.
\<close>

definition fresh :: "string \<Rightarrow> val" where
  \<comment> \<open>\<^verbatim>\<open>isIndex(segments[i + 1]) ? [] : {}\<close>\<close>
  "fresh next = (if isIndex next then Arr 0 [] else Obj [])"

definition lastIndexStep :: "val \<Rightarrow> string \<Rightarrow> val \<Rightarrow> val \<times> val" where
  "lastIndexStep current segment v =
     (if \<not> isArray current then (current, store (Arr 0 []) (propKey segment) v)
      else (store current (propKey segment) v, store current (propKey segment) v))"

fun setLoop :: "val \<Rightarrow> string list \<Rightarrow> val \<Rightarrow> error option \<times> val" where
  "setLoop current [] v = (None, current)"
| "setLoop current [segment] v =
     (if isIndex segment then (None, fst (lastIndexStep current segment v))
      else (case setProp current segment v of
              Inl e \<Rightarrow> (Some e, current)
            | Inr obj \<Rightarrow> (None, obj)))"
| "setLoop current (segment # next # rest) v =
     (if isIndex segment then
        (if \<not> isArray current then (Some ExpectedArray, current)
         else
           let arr = (if \<not> truthy (getProp current (propKey segment))
                      then store current (propKey segment) (fresh next) else current);
               (err, child) = setLoop (getProp arr (propKey segment)) (next # rest) v
           in (err, withChild arr (propKey segment) child))
      else
        (if isNullish current then (Some TypeError, current)
         else if \<not> truthy (getProp current segment) then
           (case setProp current segment (fresh next) of
              Inl e \<Rightarrow> (Some e, current)
            | Inr obj \<Rightarrow>
                let (err, child) = setLoop (getProp obj segment) (next # rest) v
                in (err, withChild obj segment child))
         else
           let (err, child) = setLoop (getProp current segment) (next # rest) v
           in (err, withChild current segment child)))"

definition setIn :: "val \<Rightarrow> string \<Rightarrow> val \<Rightarrow> error option \<times> val" where
  "setIn target path v = setLoop target (splitPath path) v"

subsection \<open>deleteIn\<close>

definition prunable :: "val \<Rightarrow> bool" where
  \<comment> \<open>\<^verbatim>\<open>child && typeof child === "object" && !Array.isArray(child) &&
      Object.keys(child).length === 0\<close>\<close>
  "prunable child = (truthy child \<and> isObject child \<and> \<not> isArray child \<and> keyCount child = 0)"

definition reportEmpty :: "val \<Rightarrow> bool" where
  \<comment> \<open>the three \<^verbatim>\<open>return\<close>s that end \<^verbatim>\<open>deleteNode\<close>\<close>
  "reportEmpty node =
     (if isArray node then False
      else if truthy node \<and> isObject node then keyCount node = 0
      else False)"

definition nextNode :: "val \<Rightarrow> string \<Rightarrow> val" where
  \<comment> \<open>the child \<^verbatim>\<open>next\<close> that \<^verbatim>\<open>deleteNode\<close> descends into\<close>
  "nextNode node segment =
     (if isIndex segment then (if isArray node then getProp node (propKey segment) else Undefined)
      else if isObject node then getProp node segment
      else Undefined)"

definition prune :: "val \<Rightarrow> string \<Rightarrow> val" where
  \<comment> \<open>the body of \<^verbatim>\<open>if (empty)\<close>\<close>
  "prune node segment =
     (if isIndex segment \<and> isArray node then
        (if prunable (getProp node (propKey segment)) then delProp node (propKey segment) else node)
      else if isObject node then
        (if prunable (getProp node segment) then delProp node segment else node)
      else node)"

text \<open>
  \<^verbatim>\<open>deleteNode(node, i)\<close> is \<open>deleteNode node\<close> on the segments from \<open>i\<close> on. It returns the
  value returned and the node as the call leaves it. The first equation is never reached
  from \<^verbatim>\<open>deleteIn\<close>, because a path has at least one segment: it removes nothing.
\<close>

fun deleteNode :: "val \<Rightarrow> string list \<Rightarrow> bool \<times> val" where
  "deleteNode node [] = (if isNullish node then True else reportEmpty node, node)"
| "deleteNode node [segment] =
     (if isNullish node then (True, node)
      else
        let node1 = (if isIndex segment \<and> isArray node then delProp node (propKey segment)
                     else if isObject node then delProp node segment
                     else node)
        in (reportEmpty node1, node1))"
| "deleteNode node (segment # s # rest) =
     (if isNullish node then (True, node)
      else
        let next = nextNode node segment;
            (empty, child) = deleteNode next (s # rest);
            node1 = (if isObject next
                     then withChild node (if isIndex segment then propKey segment else segment) child
                     else node);
            node2 = (if empty then prune node1 segment else node1)
        in (reportEmpty node2, node2))"

definition deleteIn :: "val \<Rightarrow> string \<Rightarrow> bool \<times> val" where
  \<comment> \<open>the value returned and the root as the call leaves it\<close>
  "deleteIn obj path = deleteNode obj (splitPath path)"

text \<open>
  The file is a module, so its code is strict: \<^verbatim>\<open>delete\<close> raises \<^verbatim>\<open>TypeError\<close> on the one own
  property of a value that cannot be removed, the \<^verbatim>\<open>length\<close> of an array. \<open>deleteNodeE\<close> is
  \<^verbatim>\<open>deleteNode\<close> with this raise as a result: \<open>Inl\<close> the error, \<open>Inr\<close> what \<open>deleteNode\<close>
  gives when every \<^verbatim>\<open>delete\<close> of the call returns.
\<close>

definition delPropE :: "val \<Rightarrow> string \<Rightarrow> error + val" where
  \<comment> \<open>\<^verbatim>\<open>delete x[k]\<close> on an object or an array, in strict mode\<close>
  "delPropE x k = (if isArray x \<and> k = ''length'' then Inl TypeError else Inr (delProp x k))"

definition pruneE :: "val \<Rightarrow> string \<Rightarrow> error + val" where
  \<comment> \<open>the body of \<^verbatim>\<open>if (empty)\<close>\<close>
  "pruneE node segment =
     (if isIndex segment \<and> isArray node then
        (if prunable (getProp node (propKey segment)) then delPropE node (propKey segment)
         else Inr node)
      else if isObject node then
        (if prunable (getProp node segment) then delPropE node segment else Inr node)
      else Inr node)"

fun deleteNodeE :: "val \<Rightarrow> string list \<Rightarrow> error + bool \<times> val" where
  "deleteNodeE node [] = Inr (if isNullish node then True else reportEmpty node, node)"
| "deleteNodeE node [segment] =
     (if isNullish node then Inr (True, node)
      else
        (case (if isIndex segment \<and> isArray node then delPropE node (propKey segment)
               else if isObject node then delPropE node segment
               else Inr node) of
           Inl e \<Rightarrow> Inl e
         | Inr node1 \<Rightarrow> Inr (reportEmpty node1, node1)))"
| "deleteNodeE node (segment # s # rest) =
     (if isNullish node then Inr (True, node)
      else
        (case deleteNodeE (nextNode node segment) (s # rest) of
           Inl e \<Rightarrow> Inl e
         | Inr returned \<Rightarrow>
             let next = nextNode node segment;
                 (empty, child) = returned;
                 node1 = (if isObject next
                          then withChild node (if isIndex segment then propKey segment else segment) child
                          else node)
             in (case (if empty then pruneE node1 segment else Inr node1) of
                   Inl e \<Rightarrow> Inl e
                 | Inr node2 \<Rightarrow> Inr (reportEmpty node2, node2))))"

definition deleteInE :: "val \<Rightarrow> string \<Rightarrow> error + bool \<times> val" where
  \<comment> \<open>the error raised, or the value returned and the root as the call leaves it\<close>
  "deleteInE obj path = deleteNodeE obj (splitPath path)"

section \<open>Properties\<close>

subsection \<open>Decimal digits, parsing and printing of integers\<close>

lemma digit_cases: "d < 10 \<Longrightarrow> d = 0 \<or> d = 1 \<or> d = 2 \<or> d = 3 \<or> d = 4 \<or> d = 5 \<or> d = 6 \<or> d = 7 \<or> d = 8 \<or> d = (9::nat)"
  by arith

lemma digitChar_props:
  assumes "d < 10"
  shows "isDigit (digitChar d)" "digitOf (digitChar d) = d" "\<not> isWhiteSpace (digitChar d)"
    "digitChar d \<noteq> CHR ''-''" "digitChar d \<noteq> CHR ''+''"
    "(digitChar d = CHR ''0'') = (d = 0)"
  using digit_cases[OF assms]
  by (auto simp: digitChar_def isDigit_def digitOf_def isWhiteSpace_def)

lemma isDigit_props:
  assumes "isDigit c"
  shows "digitOf c < 10" "digitChar (digitOf c) = c" "\<not> isWhiteSpace c"
    "c \<noteq> CHR ''-''" "c \<noteq> CHR ''+''" "c \<noteq> CHR ''.''" "c \<noteq> CHR ''I''"
    "c \<noteq> CHR ''x''" "c \<noteq> CHR ''X''" "c \<noteq> CHR ''o''" "c \<noteq> CHR ''O''" "c \<noteq> CHR ''b''" "c \<noteq> CHR ''B''"
    "c \<noteq> CHR ''e''" "c \<noteq> CHR ''E''"
  using assms by (auto simp: isDigit_def digitChar_def digitOf_def isWhiteSpace_def)

declare decimal.simps [simp del]

lemma decimal_digits: "list_all isDigit (decimal n)"
  by (induction n rule: decimal.induct) (subst decimal.simps, simp add: digitChar_props)

lemma decimal_nonempty [simp]: "decimal n \<noteq> []"
  by (subst decimal.simps) simp

lemma digitsValue_snoc: "digitsValue b (ds @ [c]) = b * digitsValue b ds + digitOf c"
  by (simp add: digitsValue_def)

lemma digitsValue_decimal: "digitsValue 10 (decimal n) = n"
proof (induction n rule: decimal.induct)
  case (1 n)
  show ?case
  proof (cases "n < 10")
    case True
    then show ?thesis by (subst decimal.simps) (simp add: digitsValue_def digitChar_props)
  next
    case False
    with 1 show ?thesis
      by (subst decimal.simps) (simp add: digitsValue_snoc digitChar_props)
  qed
qed

lemma hd_decimal: "(hd (decimal n) = CHR ''0'') = (n = 0)"
proof (induction n rule: decimal.induct)
  case (1 n)
  show ?case
  proof (cases "n < 10")
    case True
    then show ?thesis by (subst decimal.simps) (simp add: digitChar_props)
  next
    case False
    with 1 show ?thesis
      by (subst decimal.simps) (auto simp: hd_append)
  qed
qed

lemma decimal_0: "decimal 0 = ''0''"
  by (subst decimal.simps) (simp add: digitChar_def)

lemma trim_digits:
  assumes "s \<noteq> []" "\<not> isWhiteSpace (hd s)" "\<not> isWhiteSpace (last s)"
  shows "trim s = s"
proof -
  from assms have 1: "dropWhile isWhiteSpace s = s" by (cases s) auto
  from assms have "dropWhile isWhiteSpace (rev s) = rev s"
    by (cases "rev s") (auto simp: last_rev[symmetric])
  with 1 show ?thesis by (simp add: trim_def)
qed

lemma radixLiteral_digits:
  assumes "list_all isDigit s"
  shows "radixLiteral s = None"
proof (cases s)
  case Nil
  then show ?thesis by (simp add: radixLiteral_def)
next
  case (Cons c0 r)
  show ?thesis
  proof (cases r)
    case Nil
    with Cons show ?thesis by (simp add: radixLiteral_def)
  next
    case (Cons c1 ds)
    with assms \<open>s = c0 # r\<close> have "isDigit c1" by simp
    from isDigit_props(8-13)[OF this] Cons \<open>s = c0 # r\<close> show ?thesis
      by (simp add: radixLiteral_def)
  qed
qed

lemma unsignedDecimal_digits:
  assumes "list_all isDigit s" "s \<noteq> []"
  shows "unsignedDecimal s = toNumber (of_nat (digitsValue 10 s))"
proof -
  from assms have "isDigit (hd s)" by (cases s) auto
  then have "s \<noteq> ''Infinity''" using isDigit_props(7) by (cases s) auto
  moreover from assms have "takeWhile isDigit s = s" "dropWhile isDigit s = []"
    by (simp_all add: list_all_iff)
  ultimately show ?thesis using assms
    by (simp only: unsignedDecimal_def Let_def) (simp add: exponentPart_def pow_def)
qed

lemma strToNumber_digits:
  assumes "list_all isDigit s" "s \<noteq> []"
  shows "strToNumber s = toNumber (of_nat (digitsValue 10 s))"
proof -
  from assms have h: "isDigit (hd s)" "isDigit (last s)"
    by (cases s, auto simp: list_all_iff)
  then have "trim s = s" using assms by (intro trim_digits) (simp_all add: isDigit_props)
  with assms h show ?thesis
    by (simp add: strToNumber_def radixLiteral_digits unsignedDecimal_digits isDigit_props)
qed

lemma strToNumber_minus_digits:
  assumes "list_all isDigit s" "s \<noteq> []"
  shows "strToNumber (CHR ''-'' # s) = negate (toNumber (of_nat (digitsValue 10 s)))"
proof -
  from assms have h: "isDigit (last s)"
    by (cases s, auto simp: list_all_iff)
  from h have "\<not> isWhiteSpace (last s)" by (rule isDigit_props(3))
  moreover have "\<not> isWhiteSpace CHR ''-''" by (simp add: isWhiteSpace_def)
  ultimately have "trim (CHR ''-'' # s) = CHR ''-'' # s"
    using assms by (intro trim_digits) simp_all
  moreover have "radixLiteral (CHR ''-'' # s) = None"
    by (simp add: radixLiteral_def split: list.splits)
  ultimately show ?thesis using assms
    by (simp add: strToNumber_def unsignedDecimal_digits)
qed

lemma pow_nat [simp]: "pow b (int k) = of_nat b ^ k"
  by (simp add: pow_def)

lemma roundHalfEven_int [simp]: "roundHalfEven (of_int m) = m"
  by (simp add: roundHalfEven_def)

lemma ilog_nat:
  assumes "0 < n" "1 < b"
  shows "ilog b (of_nat n) = int (floorlog b n - 1)"
proof -
  have f1: "floorlog b (Suc 0) = 1" using assms by (simp add: compute_floorlog)
  from assms have fp: "0 < floorlog b n" by (simp add: floorlog_def)
  then have d: "int (floorlog b n) - int (floorlog b (Suc 0)) = int (floorlog b n - 1)"
    by (simp add: f1)
  from floorlog_bounds[OF assms] have "b ^ (floorlog b n - 1) \<le> n" by simp
  then have "(of_nat (b ^ (floorlog b n - 1)) :: rat) \<le> of_nat n"
    by (simp only: of_nat_le_iff)
  then have le: "pow b (int (floorlog b n - 1)) \<le> of_nat n"
    by (simp only: pow_nat of_nat_power)
  show ?thesis
    unfolding ilog_def quotient_of_rat_of_nat prod.case nat_int nat_1 d Let_def
    using le by (simp only: if_True)
qed

lemma roundDouble_nat:
  assumes "0 < n" "n < 2 ^ 53"
  shows "roundDouble (of_nat n) = Fin (of_nat n)"
proof -
  define e where "e = floorlog 2 n - 1"
  from assms have fp: "0 < floorlog 2 n" by (simp add: floorlog_def)
  from assms have "floorlog 2 n \<le> 53" by (intro floorlog_leI) simp_all
  with fp have e: "e \<le> 52" by (simp_all add: e_def)
  have il: "ilog 2 (of_nat n) = int e" using assms by (simp add: ilog_nat e_def)
  have p: "max (int e - 52) (- 1074) = - int (52 - e)" using e by simp
  have pw: "pow 2 (- int (52 - e)) = 1 / 2 ^ (52 - e)"
    by (cases "52 - e = 0") (simp_all add: pow_def)
  have "of_nat n / (1 / 2 ^ (52 - e)) = (of_int (int n * 2 ^ (52 - e)) :: rat)" by simp
  then have r: "roundHalfEven (of_nat n / (1 / 2 ^ (52 - e))) = int n * 2 ^ (52 - e)"
    by (simp only: roundHalfEven_int)
  have x: "of_int (int n * 2 ^ (52 - e)) * (1 / 2 ^ (52 - e)) = (of_nat n :: rat)" by simp
  have big: "\<not> pow 2 1024 \<le> (of_nat n :: rat)"
  proof -
    have "(of_nat n :: rat) < of_nat (2 ^ 53)" using assms(2) by (simp only: of_nat_less_iff)
    also have "\<dots> \<le> pow 2 1024" by (simp add: pow_def)
    finally show ?thesis by simp
  qed
  show ?thesis
    unfolding roundDouble_def il p pw Let_def r x using big by simp
qed

lemma toNumber_nat: "n < 2 ^ 53 \<Longrightarrow> toNumber (of_nat n) = Fin (of_nat n)"
  by (cases "n = 0") (simp_all add: toNumber_def roundDouble_nat)

lemma decimal_mult10:
  assumes "0 < m"
  shows "decimal (m * 10 ^ z) = decimal m @ replicate z CHR ''0''"
proof (induction z)
  case 0
  then show ?case by simp
next
  case (Suc z)
  have e: "m * 10 ^ Suc z = m * 10 ^ z * 10" by simp
  have "10 \<le> m * 10 ^ z * 10" using assms by simp
  then have "decimal (m * 10 ^ z * 10) = decimal (m * 10 ^ z) @ [digitChar 0]"
    by (subst decimal.simps) simp
  then have "decimal (m * 10 ^ Suc z) = (decimal m @ replicate z CHR ''0'') @ [CHR ''0'']"
    unfolding e Suc by (simp add: digitChar_def)
  then show ?case
    by (simp add: replicate_append_same)
qed

lemma candidate_nat:
  assumes "0 < n" "n < 10 ^ 15" "0 < k" "k \<le> floorlog 10 n"
  shows "candidate (of_nat n) k =
           (if 10 ^ (floorlog 10 n - k) dvd n
            then Some (n div 10 ^ (floorlog 10 n - k), int (floorlog 10 n)) else None)"
proof -
  define D where "D = floorlog 10 n"
  define w where "w = (10::nat) ^ (D - k)"
  define a where "a = n div w"
  from assms have Dp: "0 < D" by (simp add: D_def floorlog_def)
  from assms have D15: "D \<le> 15" unfolding D_def by (intro floorlog_leI) simp_all
  have il: "ilog 10 (of_nat n) + 1 = int D"
    using assms Dp by (simp add: ilog_nat D_def)
  have sc: "pow 10 (int D - int k) = of_nat w"
    using assms by (simp add: w_def D_def of_nat_diff[symmetric] del: of_nat_diff)
  have wp: "0 < w" by (simp add: w_def)
  from floorlog_bounds[of n 10] assms have "10 ^ (D - 1) \<le> n" by (simp add: D_def)
  moreover have "w \<le> 10 ^ (D - 1)" unfolding w_def using assms
    by (intro power_increasing) simp_all
  ultimately have wn: "w \<le> n" by simp
  have lo: "\<lfloor>(of_nat n :: rat) / of_nat w\<rfloor> = int a"
    by (simp add: a_def floor_divide_of_nat_eq)
  have alo: "a * w \<le> n" by (simp add: a_def)
  have ahi: "n < (a + 1) * w" using wp
    by (metis a_def dividend_less_div_times mult_Suc Suc_eq_plus1)
  have small: "(a + 1) * w < 2 ^ 53"
  proof -
    have "(a + 1) * w = a * w + w" by simp
    also have "\<dots> \<le> n + n" using alo wn by simp
    also have "\<dots> < 2 ^ 53" using assms(2) by simp
    finally show ?thesis .
  qed
  have okLo: "(toNumber (of_int (int a) * of_nat w) = Fin (of_nat n)) = (w dvd n)"
  proof -
    have "of_int (int a) * of_nat w = (of_nat (a * w) :: rat)" by simp
    moreover have "a * w < 2 ^ 53" using small by simp
    ultimately have "toNumber (of_int (int a) * of_nat w) = Fin (of_nat (a * w))"
      by (simp only: toNumber_nat)
    moreover have "(a * w = n) = (w dvd n)"
      unfolding a_def by (metis dvd_div_mult_self dvd_triv_right)
    ultimately show ?thesis by (simp only: jsnum.inject of_nat_eq_iff)
  qed
  have okHi: "(toNumber (of_int (int a + 1) * of_nat w) = Fin (of_nat n)) = False"
  proof -
    have "of_int (int a + 1) * of_nat w = (of_nat ((a + 1) * w) :: rat)"
      by (simp add: algebra_simps)
    then have "toNumber (of_int (int a + 1) * of_nat w) = Fin (of_nat ((a + 1) * w))"
      using small by (simp only: toNumber_nat)
    moreover have "(a + 1) * w \<noteq> n" using ahi by simp
    ultimately show ?thesis by (simp only: jsnum.inject of_nat_eq_iff)
  qed
  show ?thesis
    unfolding candidate_def il sc lo Let_def okLo okHi
    by (simp add: a_def w_def D_def)
qed

lemma positiveToString_nat:
  assumes "0 < n" "n < 10 ^ 15"
  shows "positiveToString (of_nat n) = decimal n"
proof -
  define D where "D = floorlog 10 n"
  define P where "P = (\<lambda>k. candidate (of_nat n :: rat) k \<noteq> None)"
  from assms have Dp: "0 < D" by (simp add: D_def floorlog_def)
  from assms have D15: "D \<le> 15" unfolding D_def by (intro floorlog_leI) simp_all
  have PD: "P D" using assms Dp by (simp add: P_def candidate_nat D_def)
  have "D \<in> set [1..<18]" using Dp D15 by simp
  with PD have "find P [1..<18] \<noteq> None" by (auto simp: find_None_iff)
  then obtain k where fk: "find P [1..<18] = Some k" by auto
  then obtain i where i: "i < length [1..<18]" "P ([1..<18] ! i)" "k = [1..<18] ! i"
    "\<forall>j<i. \<not> P ([1..<18] ! j)"
    unfolding find_Some_iff by blast
  from i(1,3) have k1: "k = 1 + i" by simp
  have kD: "k \<le> D"
  proof (rule ccontr)
    assume "\<not> k \<le> D"
    with k1 Dp have "D - 1 < i" by simp
    with i(4) have "\<not> P ([1..<18] ! (D - 1))" by blast
    moreover from \<open>D - 1 < i\<close> i(1) have "[1..<18] ! (D - 1) = 1 + (D - 1)"
      by (intro nth_upt) simp
    ultimately show False using PD Dp by simp
  qed
  from i(2,3) have Pk: "P k" by simp
  have kp: "0 < k" using k1 by simp
  from Pk have dv: "10 ^ (D - k) dvd n" and c: "candidate (of_nat n) k = Some (n div 10 ^ (D - k), int D)"
    using assms kp kD by (auto simp: P_def candidate_nat D_def split: if_splits)
  have sh: "shortest (of_nat n) = Some (k, n div 10 ^ (D - k), int D)"
    using fk c by (simp add: shortest_def P_def)
  from dv assms have "n div 10 ^ (D - k) \<noteq> 0"
    by (simp add: dvd_div_eq_0_iff)
  then have mp: "0 < n div 10 ^ (D - k)" by simp
  have "decimal (n div 10 ^ (D - k) * 10 ^ (D - k)) = decimal (n div 10 ^ (D - k)) @ replicate (D - k) CHR ''0''"
    using mp by (rule decimal_mult10)
  with dv have "decimal (n div 10 ^ (D - k)) @ replicate (D - k) CHR ''0'' = decimal n" by simp
  then show ?thesis
    using kD D15 by (simp add: positiveToString_def sh of_nat_diff[symmetric] del: of_nat_diff)
qed

lemma numToString_nat: "n < 10 ^ 15 \<Longrightarrow> numToString (toNumber (of_nat n)) = decimal n"
proof (cases "n = 0")
  case True
  then show ?thesis by (simp add: toNumber_def numToString_def decimal_0)
next
  case False
  assume "n < 10 ^ 15"
  moreover from this have "n < 2 ^ 53" by simp
  ultimately show ?thesis using False
    by (simp add: toNumber_nat numToString_def positiveToString_nat)
qed

lemma digitsValue_bound: "list_all isDigit s \<Longrightarrow> digitsValue 10 s < 10 ^ length s"
proof (induction s rule: rev_induct)
  case Nil
  then show ?case by (simp add: digitsValue_def)
next
  case (snoc c s)
  then have "digitsValue 10 s < 10 ^ length s" "digitOf c < 10"
    by (simp_all add: isDigit_props)
  then show ?case by (simp add: digitsValue_snoc)
qed

lemma isIndex_decimal: "n < 10 ^ 15 \<Longrightarrow> isIndex (decimal n)"
  by (simp add: isIndex_def strToNumber_digits decimal_digits digitsValue_decimal numToString_nat)

lemma isIndex_digits:
  assumes "list_all isDigit s" "length s \<le> 15"
  shows "isIndex s = specIndexSegment s"
proof (cases "s = []")
  case True
  then show ?thesis
    by (simp add: isIndex_def specIndexSegment_def strToNumber_def trim_def numToString_def)
next
  case False
  have "digitsValue 10 s < 10 ^ length s" using assms(1) by (rule digitsValue_bound)
  also have "\<dots> \<le> (10::nat) ^ 15" using assms(2) by (intro power_increasing) simp_all
  finally have "digitsValue 10 s < 10 ^ 15" .
  then show ?thesis using assms False
    by (simp add: isIndex_def specIndexSegment_def strToNumber_digits numToString_nat)
qed

lemma specIndexSegment_iff: "specIndexSegment s = (\<exists>n. s = decimal n)"
proof
  assume "specIndexSegment s"
  then have "s = decimal (digitsValue 10 s)" by (simp add: specIndexSegment_def)
  then show "\<exists>n. s = decimal n" ..
next
  assume "\<exists>n. s = decimal n"
  then show "specIndexSegment s"
    by (auto simp: specIndexSegment_def decimal_digits digitsValue_decimal)
qed

lemma isIndex_minus_decimal:
  assumes "0 < n" "n < 10 ^ 15"
  shows "isIndex (CHR ''-'' # decimal n)"
proof -
  from assms have "n < 2 ^ 53" by simp
  with assms have "strToNumber (CHR ''-'' # decimal n) = Fin (- of_nat n)"
    by (simp add: strToNumber_minus_digits decimal_digits digitsValue_decimal toNumber_nat negate_def)
  with assms show ?thesis
    by (simp add: isIndex_def numToString_def positiveToString_nat)
qed

lemma not_spec_minus: "\<not> specIndexSegment (CHR ''-'' # s)"
  by (simp add: specIndexSegment_def isDigit_def)

lemma decimal_1: "decimal (Suc 0) = ''1''"
  by (subst decimal.simps) (simp add: digitChar_def)

lemma isIndex_NaN: "isIndex ''NaN''"
  by code_simp

lemma isIndex_Infinity: "isIndex ''Infinity''"
  by code_simp

lemma not_isIndex_01: "\<not> isIndex ''01''"
proof -
  have "isIndex ''01'' = specIndexSegment ''01''"
    by (rule isIndex_digits) (simp_all add: isDigit_def)
  moreover have "digitsValue 10 ''01'' = 1" by (simp add: digitsValue_def digitOf_def)
  ultimately show ?thesis by (simp add: specIndexSegment_def decimal_1)
qed

text \<open>
  The string of a number starts with a digit or a minus sign, or it is \<^verbatim>\<open>NaN\<close> or
  \<^verbatim>\<open>Infinity\<close>: a segment that starts otherwise is a key segment.
\<close>

lemma hd_decimal_digit: "isDigit (hd (decimal n))"
  using decimal_digits[of n] decimal_nonempty[of n] by (cases "decimal n") auto

lemma positiveToString_head:
  "positiveToString x = [] \<or> isDigit (hd (positiveToString x))"
proof (cases "shortest x")
  case None
  then show ?thesis by (simp add: positiveToString_def)
next
  case (Some t)
  obtain k s n where t: "t = (k, s, n)" by (cases t) auto
  have d: "isDigit (hd (decimal s))" "decimal s \<noteq> []" by (simp_all add: hd_decimal_digit)
  have z: "isDigit CHR ''0''" by (simp add: isDigit_def)
  show ?thesis
    using d z Some t
    by (auto simp: positiveToString_def Let_def hd_append)
qed

lemma isIndex_head:
  assumes "isIndex s" "\<not> isDigit (hd s)" "hd s \<noteq> CHR ''-''"
  shows "s = ''NaN'' \<or> s = ''Infinity''"
proof -
  from assms(1) have e: "s = numToString (strToNumber s)" by (simp add: isIndex_def)
  have ne: "s \<noteq> []"
  proof
    assume "s = []"
    with assms(1) show False by (simp add: isIndex_def strToNumber_def trim_def numToString_def)
  qed
  have z: "isDigit CHR ''0''" by (simp add: isDigit_def)
  show ?thesis
  proof (cases "strToNumber s")
    case NaN
    with e show ?thesis by (simp add: numToString_def)
  next
    case PosInf
    with e show ?thesis by (simp add: numToString_def)
  next
    case NegInf
    with e have "s = ''-Infinity''" by (simp add: numToString_def)
    with assms(3) show ?thesis by simp
  next
    case NegZero
    with e have "s = ''0''" by (simp add: numToString_def)
    with assms(2) z show ?thesis by simp
  next
    case (Fin q)
    show ?thesis
    proof (cases "q = 0")
      case True
      with e Fin have "s = ''0''" by (simp add: numToString_def)
      with assms(2) z show ?thesis by simp
    next
      case False
      show ?thesis
      proof (cases "q < 0")
        case True
        with e Fin False have "s = CHR ''-'' # positiveToString (- q)" by (simp add: numToString_def)
        then have "hd s = CHR ''-''" by simp
        with assms(3) show ?thesis by simp
      next
        case nneg: False
        with e Fin False have "s = positiveToString q" by (simp add: numToString_def)
        with positiveToString_head[of q] ne assms(2) show ?thesis by auto
      qed
    qed
  qed
qed

subsection \<open>Segments used by the examples\<close>

lemma isIndex_propKey: "isIndex s \<Longrightarrow> propKey s = s"
  by (simp add: isIndex_def propKey_def)

lemma isIndex_0: "isIndex ''0''"
  by code_simp

lemma propKey_0: "propKey ''0'' = ''0''"
  by (simp add: isIndex_propKey isIndex_0)

lemma arrayIndex_0: "arrayIndex ''0'' = Some 0"
  by code_simp

lemma isIndex_1: "isIndex ''1''"
  using isIndex_decimal [of 1] by (simp add: decimal_1)

lemma not_isIndex_a: "\<not> isIndex ''a''"
  by code_simp

lemma not_isIndex_b: "\<not> isIndex ''b''"
  by code_simp

lemma not_isIndex_c: "\<not> isIndex ''c''"
  by code_simp

lemma not_isIndex_items: "\<not> isIndex ''items''"
  by code_simp

lemma not_isIndex_name: "\<not> isIndex ''name''"
  by code_simp

lemma not_isIndex_tags: "\<not> isIndex ''tags''"
  by code_simp

lemma isIndex_minus1: "isIndex ''-1''"
  using isIndex_minus_decimal [of 1] by (simp add: decimal_1)

lemma arrayIndex_minus1: "arrayIndex ''-1'' = None"
proof -
  have "strToNumber ''-1'' = negate (toNumber (of_nat (digitsValue 10 ''1'')))"
    by (rule strToNumber_minus_digits) (simp_all add: isDigit_def)
  moreover have "digitsValue 10 ''1'' = 1" by (simp add: digitsValue_def digitOf_def)
  moreover have "toNumber (of_nat 1) = Fin (of_nat 1)" by (rule toNumber_nat) simp
  ultimately have "strToNumber ''-1'' = Fin (- 1)" by (simp add: negate_def)
  then show ?thesis by (simp add: arrayIndex_def)
qed

lemmas builtin_defs = builtinName_def builtinNames_def objectMembers_def arrayMembers_def
  stringMembers_def numberMembers_def

lemma builtinName_length: "builtinName ''length''"
  by (simp add: builtin_defs)

lemma dataPath_no_length: "dataPath P \<Longrightarrow> ''length'' \<notin> set (splitPath P)"
  using builtinName_length by (auto simp: dataPath_def list_all_iff)

lemma splitPath_nonempty [simp]: "splitPath p \<noteq> []"
  by (induction p) (auto split: list.splits)

subsection \<open>Property access\<close>

lemma getProp_store [simp]: "isObject c \<Longrightarrow> getProp (store c k v) k = v"
  by (cases c) (simp_all add: update_conv')

lemma getProp_withChild [simp]: "isObject c \<Longrightarrow> getProp (withChild c k v) k = v"
  by (cases c) (simp_all add: update_conv')

lemma isArray_store [simp]: "isArray (store c k v) = isArray c"
  by (cases c) simp_all

lemma isObject_store [simp]: "isObject (store c k v) = isObject c"
  by (cases c) simp_all

lemma isArray_withChild [simp]: "isArray (withChild c k v) = isArray c"
  by (cases c) simp_all

lemma isObject_withChild [simp]: "isObject (withChild c k v) = isObject c"
  by (cases c) simp_all

lemma isArray_delProp [simp]: "isArray (delProp c k) = isArray c"
  by (cases c) simp_all

lemma isObject_delProp [simp]: "isObject (delProp c k) = isObject c"
  by (cases c) simp_all

lemma isArray_isObject: "isArray c \<Longrightarrow> isObject c"
  by (cases c) simp_all

lemma isObject_not_nullish: "isObject c \<Longrightarrow> \<not> isNullish c"
  by (cases c) (simp_all add: isNullish_def)


lemma isObject_truthy: "isObject c \<Longrightarrow> truthy c"
  by (cases c) simp_all

lemma truthy_getProp: "truthy (getProp c k) \<Longrightarrow> isObject c"
  by (cases c) simp_all

lemma withChild_store [simp]: "withChild (store c k v) k w = store c k w"
  by (cases c) simp_all

lemma store_last [simp]: "store (store c k v) k w = store c k w"
  by (cases c) (simp_all split: option.splits)


lemma withChild_idem [simp]: "withChild (withChild c k v) k w = withChild c k w"
  by (cases c) simp_all

lemma withChild_getProp: "isObject (getProp c k) \<Longrightarrow> withChild c k (getProp c k) = c"
  by (cases c) (auto simp: update_triv split: option.splits)

lemma getProp_delProp [simp]: "getProp (delProp c k) k = Undefined"
  by (cases c) (simp_all add: delete_conv')

lemma delProp_idem [simp]: "delProp (delProp c k) k = delProp c k"
  by (cases c) (simp_all add: delete_idem)

lemma getProp_nullish: "isNullish c \<Longrightarrow> getProp c k = Undefined"
  by (auto simp: isNullish_def)

lemma getProp_not_object: "\<not> isObject c \<Longrightarrow> getProp c k = Undefined"
  by (cases c) simp_all

lemma isObject_fresh [simp]: "isObject (fresh n)"
  by (simp add: fresh_def)

lemma isArray_fresh [simp]: "isArray (fresh n) = isIndex n"
  by (simp add: fresh_def)

lemma getProp_fresh [simp]: "getProp (fresh n) k = Undefined"
  by (simp add: fresh_def)

text \<open>
  When \<open>isIndex segment\<close> holds, \<^verbatim>\<open>x[+segment]\<close> and \<^verbatim>\<open>x[segment]\<close> are the same property,
  so both branches of the step of \<^verbatim>\<open>getIn\<close> read the property named by the segment.
\<close>

lemma getLoop_Cons:
  "getLoop c (s # r) = (if isNullish c then Undefined else getLoop (getProp c s) r)"
  by (simp add: isIndex_propKey)

declare getLoop.simps(2) [simp del]

declare getLoop_Cons [simp]

subsection \<open>setIn\<close>

lemma setLoop_kind:
  "isArray (snd (setLoop c segs v)) = isArray c \<and> isObject (snd (setLoop c segs v)) = isObject c"
  by (induction c segs v rule: setLoop.induct)
     (auto simp: lastIndexStep_def setProp_def Let_def split: prod.splits sum.splits if_splits)

text \<open>A container that the walk has just created never stops the walk.\<close>

lemma setLoop_fresh: "fst (setLoop (fresh n) (n # rest) v) = None"
proof (induction rest arbitrary: n)
  case Nil
  then show ?case by (simp add: setProp_def)
next
  case (Cons m rest)
  show ?case using Cons[of m]
    by (auto simp: isIndex_propKey setProp_def isObject_not_nullish split: prod.splits)
qed

text \<open>
  A step that is not the last one, on a container of the kind the segment asks for, whose
  slot holds nothing truthy: the slot is overwritten with a new container, and the rest
  of the path is written into that.
\<close>

lemma setLoop_vivify:
  assumes "isObject cur" "isIndex seg \<longrightarrow> isArray cur" "\<not> truthy (getProp cur seg)"
  shows "setLoop cur (seg # next # rest) v =
           (None, store cur seg (snd (setLoop (fresh next) (next # rest) v)))"
proof -
  obtain e c where ec: "setLoop (fresh next) (next # rest) v = (e, c)" by force
  with setLoop_fresh[of "next" rest v] have e: "e = None" by simp
  show ?thesis
  proof (cases "isIndex seg")
    case True
    with assms ec e show ?thesis by (simp add: isIndex_propKey)
  next
    case False
    with assms ec e show ?thesis by (simp add: setProp_def isObject_not_nullish)
  qed
qed




lemma setLoop_roundtrip:
  "fst (setLoop cur segs v) = None \<Longrightarrow> segs \<noteq> [] \<Longrightarrow>
   (isIndex (last segs) \<longrightarrow> isArray (getLoop (snd (setLoop cur segs v)) (butlast segs))) \<Longrightarrow>
   getLoop (snd (setLoop cur segs v)) segs = v"
proof (induction segs arbitrary: cur)
  case Nil
  then show ?case by simp
next
  case (Cons seg rest)
  show ?case
  proof (cases rest)
    case Nil
    with Cons.prems show ?thesis
      by (auto simp: setProp_def lastIndexStep_def isIndex_propKey isObject_not_nullish
          isArray_isObject split: if_splits)
  next
    case (Cons nxt rest')
    note r = Cons
    from Cons.prems(1) r have ok: "isObject cur" "isIndex seg \<longrightarrow> isArray cur"
      by (auto simp: setProp_def isArray_isObject dest: truthy_getProp split: if_splits)
    define cur1 where "cur1 = (if truthy (getProp cur seg) then cur else store cur seg (fresh nxt))"
    obtain e c where ec: "setLoop (getProp cur1 seg) (nxt # rest') v = (e, c)" by force
    have eq: "setLoop cur (seg # rest) v = (e, withChild cur1 seg c)"
      using ok ec r by (auto simp: cur1_def isIndex_propKey setProp_def isObject_not_nullish)
    have o1: "isObject cur1" using ok by (simp add: cur1_def)
    from eq Cons.prems(1) have e: "e = None" by simp
    have g: "getLoop (withChild cur1 seg c) (seg # xs) = getLoop c xs" for xs
      using o1 by (simp add: isObject_not_nullish)
    have l: "last (seg # rest) = last rest" "butlast (seg # rest) = seg # butlast rest"
      using r by simp_all
    from Cons.prems(3) have "isIndex (last rest) \<longrightarrow> isArray (getLoop c (butlast rest))"
      unfolding l eq snd_conv g .
    with Cons.IH[of "getProp cur1 seg"] ec e r have "getLoop c rest = v" by simp
    then show ?thesis by (simp only: eq snd_conv g)
  qed
qed

text \<open>
  C1, as amended. For every root, every value and every path none of whose segments names
  a built-in member: when \<^verbatim>\<open>setIn\<close> returns without raising and, if the last segment is an
  index segment, the container the path prefix leads to is an array, \<^verbatim>\<open>getIn\<close> on the
  updated root with the same path yields the value. (The case of a last index segment on
  a container that is no array is left out here. With a built-in member named on the
  path the property fails: \<^verbatim>\<open>setIn({}, "__proto__", 5)\<close> returns and stores nothing.)
\<close>

theorem setIn_then_getIn:
  "dataPath P \<Longrightarrow>
   fst (setIn R P v) = None \<Longrightarrow>
   (isIndex (last (splitPath P)) \<longrightarrow>
      isArray (getLoop (snd (setIn R P v)) (butlast (splitPath P)))) \<Longrightarrow>
   getIn (snd (setIn R P v)) P = v"
proof -
  assume "fst (setIn R P v) = None"
    and "isIndex (last (splitPath P)) \<longrightarrow>
      isArray (getLoop (snd (setIn R P v)) (butlast (splitPath P)))"
  then show ?thesis
    unfolding setIn_def getIn_def by (intro setLoop_roundtrip) simp_all
qed

theorem setIn_then_getIn_witness:
  "dataPath ''tags.0''
   \<and> fst (setIn (Obj []) ''tags.0'' (Str ''b'')) = None
   \<and> isIndex (last (splitPath ''tags.0''))
   \<and> isArray (getLoop (snd (setIn (Obj []) ''tags.0'' (Str ''b''))) (butlast (splitPath ''tags.0'')))
   \<and> getIn (snd (setIn (Obj []) ''tags.0'' (Str ''b''))) ''tags.0'' = Str ''b''"
  using setIn_then_getIn [of "''tags.0''" "Obj []" "Str ''b''"]
  by (simp add: setIn_def isIndex_0 not_isIndex_tags propKey_0 arrayIndex_0
      isNullish_def fresh_def setProp_def lastIndexStep_def dataPath_def builtin_defs)

text \<open>
  C1, as stated, fails where \<^verbatim>\<open>setIn\<close> raises: on \<^verbatim>\<open>{items: {foo: 1}}\<close> the path
  \<^verbatim>\<open>items.0.name\<close> meets an object at an index segment, the call throws, and \<^verbatim>\<open>getIn\<close>
  yields \<^verbatim>\<open>undefined\<close>.
\<close>

theorem setIn_then_getIn_counterexample:
  "setIn (Obj [(''items'', Obj [(''foo'', Num (Fin 1))])]) ''items.0.name'' (Str ''x'')
     = (Some ExpectedArray, Obj [(''items'', Obj [(''foo'', Num (Fin 1))])])
   \<and> getIn (snd (setIn (Obj [(''items'', Obj [(''foo'', Num (Fin 1))])]) ''items.0.name'' (Str ''x'')))
        ''items.0.name'' \<noteq> Str ''x''"
  by (simp add: setIn_def getIn_def isIndex_0 not_isIndex_items isNullish_def)

text \<open>
  C2 fails on the code. On \<^verbatim>\<open>{a: {}}\<close> with the path \<^verbatim>\<open>a.0\<close>, the last step finds an object, not
  an array: the new array is bound to the local variable only, the value is assigned into
  it, and the root is returned as it was. The container under \<^verbatim>\<open>a\<close> is still the empty
  object, and reading the path back yields \<^verbatim>\<open>undefined\<close>. The same happens on \<^verbatim>\<open>{}\<close> with the
  path \<^verbatim>\<open>0\<close>.
\<close>

theorem setIn_last_index_not_array:
  "setIn (Obj [(''a'', Obj [])]) ''a.0'' (Str ''x'') = (None, Obj [(''a'', Obj [])])
   \<and> lastIndexStep (Obj []) ''0'' (Str ''x'') = (Obj [], Arr 1 [(''0'', Str ''x'')])
   \<and> getIn (Obj [(''a'', Obj [])]) ''a'' = Obj []
   \<and> getIn (Obj [(''a'', Obj [])]) ''a.0'' = Undefined
   \<and> setIn (Obj []) ''0'' (Str ''x'') = (None, Obj [])
   \<and> getIn (Obj []) ''0'' = Undefined"
  by (simp add: setIn_def getIn_def isIndex_0 not_isIndex_a lastIndexStep_def propKey_0
      arrayIndex_0 isNullish_def)




text \<open>
  C9, as amended. At a segment that is not the last one, on a container of the kind the
  segment asks for, a missing child (reading the segment on the container gives
  \<^verbatim>\<open>undefined\<close>: the container has no such property, and the segment names no built-in
  member) is created as an array when \<open>isIndex\<close> holds for the next segment and as an
  object otherwise, whatever the current segment is, and it is still there when the call
  ends. For a next segment of at most 15 digits, \<open>isIndex\<close> is the specification's index
  segment. When no later segment names a built-in member either, the call does not raise.
  \<^verbatim>\<open>setIn({}, "items.0.name", "x")\<close> gives \<^verbatim>\<open>{items: [{name: "x"}]}\<close>.
\<close>

theorem setIn_creates_by_next_segment:
  "(isObject cur \<and> (isIndex seg \<longrightarrow> isArray cur) \<and> \<not> builtinName seg
      \<and> getProp cur seg = Undefined \<longrightarrow>
      isObject (getProp (snd (setLoop cur (seg # next # rest) v)) seg)
      \<and> isArray (getProp (snd (setLoop cur (seg # next # rest) v)) seg) = isIndex next
      \<and> (list_all isDigit next \<and> length next \<le> 15 \<longrightarrow>
            isArray (getProp (snd (setLoop cur (seg # next # rest) v)) seg) = specIndexSegment next)
      \<and> (list_all (\<lambda>s. \<not> builtinName s) (next # rest) \<longrightarrow>
            fst (setLoop cur (seg # next # rest) v) = None))
   \<and> setIn (Obj []) ''items.0.name'' (Str ''x'')
       = (None, Obj [(''items'', Arr 1 [(''0'', Obj [(''name'', Str ''x'')])])])"
proof (intro conjI impI)
  assume a: "isObject cur \<and> (isIndex seg \<longrightarrow> isArray cur) \<and> \<not> builtinName seg
      \<and> getProp cur seg = Undefined"
  then have eq: "setLoop cur (seg # next # rest) v =
           (None, store cur seg (snd (setLoop (fresh next) (next # rest) v)))"
    by (intro setLoop_vivify) simp_all
  show "isObject (getProp (snd (setLoop cur (seg # next # rest) v)) seg)"
    using a by (simp only: eq snd_conv getProp_store setLoop_kind isObject_fresh)
  show k: "isArray (getProp (snd (setLoop cur (seg # next # rest) v)) seg) = isIndex next"
    using a by (simp only: eq snd_conv getProp_store setLoop_kind isArray_fresh)
  show "fst (setLoop cur (seg # next # rest) v) = None" by (simp only: eq fst_conv)
  assume "list_all isDigit next \<and> length next \<le> 15"
  then have "isIndex next = specIndexSegment next" by (simp add: isIndex_digits)
  with k show "isArray (getProp (snd (setLoop cur (seg # next # rest) v)) seg) = specIndexSegment next"
    by simp
next
  show "setIn (Obj []) ''items.0.name'' (Str ''x'')
       = (None, Obj [(''items'', Arr 1 [(''0'', Obj [(''name'', Str ''x'')])])])"
    by (simp add: setIn_def isIndex_0 not_isIndex_items not_isIndex_name propKey_0 arrayIndex_0
        isNullish_def fresh_def setProp_def lastIndexStep_def)
qed

theorem setIn_creates_by_next_segment_witness:
  "isObject (Obj []) \<and> \<not> isIndex ''items'' \<and> \<not> builtinName ''items''
   \<and> getProp (Obj []) ''items'' = Undefined
   \<and> isIndex ''0'' \<and> list_all isDigit ''0'' \<and> length ''0'' \<le> 15 \<and> specIndexSegment ''0''
   \<and> list_all (\<lambda>s. \<not> builtinName s) [''0'', ''name'']
   \<and> fst (setLoop (Obj []) [''items'', ''0'', ''name''] (Str ''x'')) = None
   \<and> isArray (getProp (snd (setLoop (Obj []) [''items'', ''0'', ''name''] (Str ''x''))) ''items'')"
proof -
  have d: "list_all isDigit ''0'' \<and> length ''0'' \<le> 15" by (simp add: isDigit_def)
  then have s: "specIndexSegment ''0''" using isIndex_digits [of "''0''"] isIndex_0 by simp
  have b: "\<not> builtinName ''items'' \<and> list_all (\<lambda>s. \<not> builtinName s) [''0'', ''name'']"
    by (simp add: builtin_defs)
  have h: "isObject (Obj []) \<and> \<not> isIndex ''items'' \<and> getProp (Obj []) ''items'' = Undefined"
    by (simp add: not_isIndex_items)
  from setIn_creates_by_next_segment [of "Obj []" "''items''" "''0''" "[''name'']" "Str ''x''"] h b d
  have "fst (setLoop (Obj []) [''items'', ''0'', ''name''] (Str ''x'')) = None
    \<and> isArray (getProp (snd (setLoop (Obj []) [''items'', ''0'', ''name''] (Str ''x''))) ''items'')
        = isIndex ''0''"
    by blast
  with d s b h isIndex_0 show ?thesis by simp
qed

text \<open>
  C9, as stated, fails for a next segment that \<open>isIndex\<close> accepts and that is no index
  segment: \<^verbatim>\<open>-1\<close> is not the decimal representation of a non-negative integer, and
  \<^verbatim>\<open>setIn({}, "a.-1", "x")\<close> creates under \<^verbatim>\<open>a\<close> an array (with the property \<^verbatim>\<open>-1\<close>), not an
  object.
\<close>

theorem setIn_creates_by_next_segment_counterexample:
  "\<not> specIndexSegment ''-1''
   \<and> setIn (Obj []) ''a.-1'' (Str ''x'') = (None, Obj [(''a'', Arr 0 [(''-1'', Str ''x'')])])
   \<and> isArray (getIn (snd (setIn (Obj []) ''a.-1'' (Str ''x''))) ''a'')"
  by (simp add: setIn_def getIn_def not_isIndex_a isIndex_minus1 isIndex_propKey arrayIndex_minus1
      isNullish_def fresh_def setProp_def lastIndexStep_def not_spec_minus)

text \<open>
  C10. At a segment that is not the last one, on a container of the kind the segment asks
  for, a child that is the number 0, the empty string or \<^verbatim>\<open>false\<close> is handled exactly as a
  slot holding \<^verbatim>\<open>undefined\<close>: the call gives the same result, and when it ends the slot holds
  a container chosen by the next segment, so the stored leaf is gone. When no later
  segment names a built-in member, the call does not raise, and the slot holds what the
  rest of the path writes into a new, empty container.
\<close>

theorem setIn_overwrites_falsy_child:
  "getProp cur seg \<in> {Num (Fin 0), Str [], Bool False} \<and> isObject cur
     \<and> (isIndex seg \<longrightarrow> isArray cur) \<longrightarrow>
   setLoop cur (seg # next # rest) v
     = setLoop (withChild cur seg Undefined) (seg # next # rest) v
   \<and> isObject (getProp (snd (setLoop cur (seg # next # rest) v)) seg)
   \<and> isArray (getProp (snd (setLoop cur (seg # next # rest) v)) seg) = isIndex next
   \<and> (list_all (\<lambda>s. \<not> builtinName s) (next # rest) \<longrightarrow>
        setLoop cur (seg # next # rest) v
          = (None, store cur seg (snd (setLoop (fresh next) (next # rest) v))))"
proof (intro impI)
  assume a: "getProp cur seg \<in> {Num (Fin 0), Str [], Bool False} \<and> isObject cur
     \<and> (isIndex seg \<longrightarrow> isArray cur)"
  then have f: "\<not> truthy (getProp cur seg)" by auto
  from a f have eq: "setLoop cur (seg # next # rest) v =
           (None, store cur seg (snd (setLoop (fresh next) (next # rest) v)))"
    by (intro setLoop_vivify) simp_all
  from a have "setLoop (withChild cur seg Undefined) (seg # next # rest) v =
           (None, store (withChild cur seg Undefined) seg (snd (setLoop (fresh next) (next # rest) v)))"
    by (intro setLoop_vivify) simp_all
  moreover have "store (withChild cur seg Undefined) seg w = store cur seg w" for w
    using a by (cases cur) (auto simp: update_conv' split: option.splits)
  ultimately have eq2: "setLoop (withChild cur seg Undefined) (seg # next # rest) v =
           (None, store cur seg (snd (setLoop (fresh next) (next # rest) v)))"
    by simp
  from a show "setLoop cur (seg # next # rest) v
     = setLoop (withChild cur seg Undefined) (seg # next # rest) v
   \<and> isObject (getProp (snd (setLoop cur (seg # next # rest) v)) seg)
   \<and> isArray (getProp (snd (setLoop cur (seg # next # rest) v)) seg) = isIndex next
   \<and> (list_all (\<lambda>s. \<not> builtinName s) (next # rest) \<longrightarrow>
        setLoop cur (seg # next # rest) v
          = (None, store cur seg (snd (setLoop (fresh next) (next # rest) v))))"
    by (simp only: eq eq2 snd_conv getProp_store setLoop_kind isObject_fresh isArray_fresh simp_thms)
qed

theorem setIn_overwrites_falsy_child_witness:
  "getProp (Obj [(''a'', Num (Fin 0))]) ''a'' = Num (Fin 0) \<and> \<not> isIndex ''a''
   \<and> list_all (\<lambda>s. \<not> builtinName s) [''b'']
   \<and> setLoop (Obj [(''a'', Num (Fin 0))]) [''a'', ''b''] (Str ''x'')
       = setLoop (withChild (Obj [(''a'', Num (Fin 0))]) ''a'' Undefined) [''a'', ''b''] (Str ''x'')
   \<and> setIn (Obj [(''a'', Num (Fin 0))]) ''a.b'' (Str ''x'')
       = (None, Obj [(''a'', Obj [(''b'', Str ''x'')])])"
  using setIn_overwrites_falsy_child [of "Obj [(''a'', Num (Fin 0))]" "''a''" "''b''" "[]" "Str ''x''"]
  by (simp add: setIn_def not_isIndex_a not_isIndex_b fresh_def setProp_def isNullish_def
      builtin_defs)

subsection \<open>deleteIn\<close>

text \<open>
  \<^verbatim>\<open>deleteNode\<close> in a shorter form: under \<open>isIndex segment\<close> the key of \<^verbatim>\<open>node[+segment]\<close> is
  the segment, and a delete or a read on a value that is no container does nothing.
\<close>

lemma prunable_iff: "prunable c = (c = Obj [])"
  by (cases c) (auto simp: prunable_def)

lemma reportEmpty_iff: "reportEmpty c = (c = Obj [])"
  by (cases c) (auto simp: reportEmpty_def)

lemma prune_eq: "prune node seg = (if getProp node seg = Obj [] then delProp node seg else node)"
  by (cases node) (auto simp: prune_def prunable_iff isIndex_propKey)

lemma nextNode_eq:
  "nextNode node seg = (if isIndex seg \<and> \<not> isArray node then Undefined else getProp node seg)"
  by (cases node) (auto simp: nextNode_def isIndex_propKey)

lemma deleteNode_last:
  "deleteNode node [seg] =
     (if isNullish node then (True, node) else (reportEmpty (delProp node seg), delProp node seg))"
  by (cases node) (auto simp: isIndex_propKey Let_def)

lemma deleteNode_step:
  "deleteNode node (seg # s # rest) =
     (if isNullish node then (True, node)
      else let next = nextNode node seg;
               (empty, child) = deleteNode next (s # rest);
               node1 = (if isObject next then withChild node seg child else node);
               node2 = (if empty then prune node1 seg else node1)
           in (reportEmpty node2, node2))"
  by (auto simp: isIndex_propKey Let_def split: prod.splits)

lemma deleteNode_nullish: "isNullish node \<Longrightarrow> deleteNode node segs = (True, node)"
  by (cases "(node, segs)" rule: deleteNode.cases) auto

lemma fst_deleteNode:
  "\<not> isNullish node \<Longrightarrow> fst (deleteNode node segs) = (snd (deleteNode node segs) = Obj [])"
  by (cases "(node, segs)" rule: deleteNode.cases)
     (auto simp: reportEmpty_iff Let_def split: prod.splits)

lemma deleteNode_primitive: "\<not> isObject node \<Longrightarrow> snd (deleteNode node segs) = node"
  by (cases "(node, segs)" rule: deleteNode.cases)
     (cases node; auto simp: nextNode_eq prune_eq deleteNode_nullish isNullish_def Let_def
        split: prod.splits)+

lemma deleteNode_kind:
  "isArray (snd (deleteNode n segs)) = isArray n \<and> isObject (snd (deleteNode n segs)) = isObject n"
  by (cases "(n, segs)" rule: deleteNode.cases)
     (auto simp: prune_eq Let_def split: prod.splits)

declare deleteNode.simps(2,3) [simp del]

text \<open>After a delete, the slot of the first segment never holds an empty object.\<close>

lemma slot_not_empty_object:
  "getProp (snd (deleteNode node (seg # s # rest))) seg \<noteq> Obj []"
proof (cases "isNullish node")
  case True
  then show ?thesis by (simp add: deleteNode_nullish getProp_nullish)
next
  case False
  define nxt where "nxt = nextNode node seg"
  obtain e c where ec: "deleteNode nxt (s # rest) = (e, c)" by force
  define node1 where "node1 = (if isObject nxt then withChild node seg c else node)"
  have r: "snd (deleteNode node (seg # s # rest)) = (if e then prune node1 seg else node1)"
    using False ec by (simp add: deleteNode_step nxt_def node1_def Let_def)
  show ?thesis
  proof (cases e)
    case True
    then show ?thesis unfolding r by (simp add: prune_eq)
  next
    case False
    have "getProp node1 seg \<noteq> Obj []"
    proof
      assume a: "getProp node1 seg = Obj []"
      show False
      proof (cases "isObject nxt")
        case True
        with a have "isObject node" by (cases node) (simp_all add: node1_def)
        with a True have "c = Obj []" by (simp add: node1_def)
        with fst_deleteNode[of nxt "s # rest"] True ec False show False
          by (simp add: isObject_not_nullish)
      next
        case False
        with a have "nxt = Undefined"
          by (auto simp: nxt_def nextNode_eq node1_def split: if_splits)
        with ec \<open>\<not> e\<close> show False by (simp add: deleteNode_nullish isNullish_def)
      qed
    qed
    with False show ?thesis unfolding r by simp
  qed
qed

text \<open>
  A container that the walk of \<^verbatim>\<open>deleteNode\<close> finds under the first segment after a delete
  is the child the delete descended into, as the delete left it.
\<close>

lemma nextNode_after_delete:
  assumes "isObject (nextNode (snd (deleteNode node (seg # s # rest))) seg)"
  shows "nextNode (snd (deleteNode node (seg # s # rest))) seg
           = snd (deleteNode (nextNode node seg) (s # rest))"
proof (cases "isNullish node")
  case True
  with assms show ?thesis by (auto simp: deleteNode_nullish nextNode_eq isNullish_def)
next
  case False
  define node' where "node' = snd (deleteNode node (seg # s # rest))"
  have k: "isObject node' = isObject node" "isArray node' = isArray node"
    by (simp_all add: node'_def deleteNode_kind)
  define nxt where "nxt = nextNode node seg"
  obtain e c where ec: "deleteNode nxt (s # rest) = (e, c)" by force
  define node1 where "node1 = (if isObject nxt then withChild node seg c else node)"
  have r: "node' = (if e then prune node1 seg else node1)"
    using False ec by (simp add: node'_def deleteNode_step nxt_def node1_def Let_def)
  from assms have o: "isObject (nextNode node' seg)" by (simp add: node'_def)
  then have g: "nextNode node' seg = getProp node' seg"
    by (auto simp: nextNode_eq split: if_splits)
  have "getProp node' seg = getProp node1 seg"
    using o g unfolding r by (auto simp: prune_eq)
  with o g have g1: "nextNode node' seg = getProp node1 seg" by simp
  have "nextNode node' seg = c"
  proof (cases "isObject nxt")
    case True
    with g1 o show ?thesis
      by (cases "isObject node") (auto simp: node1_def getProp_not_object)
  next
    case False
    with g1 have "nextNode node' seg = getProp node seg" by (simp add: node1_def)
    then have "nxt = nextNode node' seg"
      using o k by (auto simp: nxt_def nextNode_eq split: if_splits)
    with False o show ?thesis by simp
  qed
  with ec show ?thesis by (simp add: node'_def nxt_def)
qed

lemma deleteNode_idem:
  "snd (deleteNode (snd (deleteNode node segs)) segs) = snd (deleteNode node segs)"
proof (induction segs arbitrary: node)
  case Nil
  then show ?case by simp
next
  case (Cons seg rest)
  show ?case
  proof (cases rest)
    case Nil
    then show ?thesis
      by (cases "isNullish node") (auto simp: deleteNode_last)
  next
    case (Cons s rest')
    show ?thesis
    proof (cases "isNullish node")
      case True
      then show ?thesis by (simp add: deleteNode_nullish)
    next
      case False
      define node' where "node' = snd (deleteNode node (seg # s # rest'))"
      have k: "isObject node' = isObject node" "isArray node' = isArray node"
        by (simp_all add: node'_def deleteNode_kind)
      have slot: "getProp node' seg \<noteq> Obj []"
        unfolding node'_def by (rule slot_not_empty_object)
      have nn: "\<not> isNullish node'"
        using False k
        by (cases node; cases node'; simp add: isNullish_def node'_def deleteNode_primitive)
      define nxt' where "nxt' = nextNode node' seg"
      obtain e' c' where ec': "deleteNode nxt' (s # rest') = (e', c')" by force
      have keep: "c' = nxt'" if o: "isObject nxt'"
      proof -
        from o have "nxt' = snd (deleteNode (nextNode node seg) (s # rest'))"
          unfolding nxt'_def node'_def by (rule nextNode_after_delete)
        with Cons.IH[of "nextNode node seg"] ec' Cons show ?thesis by simp
      qed
      have w: "(if isObject nxt' then withChild node' seg c' else node') = node'"
      proof (cases "isObject nxt'")
        case True
        with keep have "c' = nxt'" by simp
        moreover from True have "nxt' = getProp node' seg"
          by (auto simp: nxt'_def nextNode_eq split: if_splits)
        ultimately show ?thesis using True by (simp add: withChild_getProp)
      next
        case False
        then show ?thesis by simp
      qed
      have "snd (deleteNode node' (seg # s # rest')) = node'"
        using nn ec' w slot by (simp add: deleteNode_step nxt'_def[symmetric] prune_eq Let_def)
      then show ?thesis using Cons by (simp add: node'_def)
    qed
  qed
qed

text \<open>
  A delete whose walk reaches \<^verbatim>\<open>null\<close> or \<^verbatim>\<open>undefined\<close> before the last segment removes
  nothing, unless the slot of a segment on the way holds an empty object.
\<close>

lemma deleteNode_absent_unchanged:
  "\<exists>j<length segs. isNullish (foldl nextNode node (take j segs)) \<Longrightarrow>
   \<forall>k. 0 < k \<and> k < length segs \<longrightarrow> getLoop node (take k segs) \<noteq> Obj [] \<Longrightarrow>
   snd (deleteNode node segs) = node"
proof (induction segs arbitrary: node)
  case Nil
  then show ?case by simp
next
  case (Cons seg rest)
  show ?case
  proof (cases "isNullish node")
    case True
    then show ?thesis by (simp add: deleteNode_nullish)
  next
    case False
    from Cons.prems(1) obtain j
      where j: "j < length (seg # rest)" "isNullish (foldl nextNode node (take j (seg # rest)))"
      by blast
    with False obtain j' where j': "j = Suc j'" by (cases j) auto
    with j have r: "rest \<noteq> []" by auto
    then obtain s rest' where rest: "rest = s # rest'" by (cases rest) auto
    define g where "g = getProp node seg"
    have g1: "g \<noteq> Obj []"
      using Cons.prems(2)[rule_format, of 1] False rest by (simp add: g_def)
    define nxt where "nxt = nextNode node seg"
    obtain e c where ec: "deleteNode nxt rest = (e, c)" by force
    have c: "isObject nxt \<longrightarrow> c = nxt \<and> nxt = g"
    proof
      assume o: "isObject nxt"
      then have ng: "nxt = g" by (auto simp: nxt_def g_def nextNode_eq split: if_splits)
      have "\<exists>j<length rest. isNullish (foldl nextNode g (take j rest))"
        using j j' ng by (auto simp: nxt_def)
      moreover have "\<forall>k. 0 < k \<and> k < length rest \<longrightarrow> getLoop g (take k rest) \<noteq> Obj []"
      proof (intro allI impI)
        fix k assume "0 < k \<and> k < length rest"
        with Cons.prems(2)[rule_format, of "Suc k"] False show "getLoop g (take k rest) \<noteq> Obj []"
          by (simp add: g_def)
      qed
      ultimately have "snd (deleteNode g rest) = g" by (rule Cons.IH)
      with ec ng show "c = nxt \<and> nxt = g" by simp
    qed
    have w: "(if isObject nxt then withChild node seg c else node) = node"
      using c by (auto simp: g_def withChild_getProp)
    have "snd (deleteNode node (seg # s # rest')) = node"
      using False ec[unfolded rest] w g1
      by (simp add: deleteNode_step nxt_def[symmetric] prune_eq Let_def g_def)
    then show ?thesis by (simp add: rest)
  qed
qed

text \<open>The slot of a segment on the way that holds an array holds an array after the delete.\<close>

lemma deleteNode_array_slot:
  assumes "isArray (getProp node seg)"
  shows "isArray (getProp (snd (deleteNode node (seg # s # rest))) seg)"
proof -
  from assms have o: "isObject node" by (cases node) auto
  then have nn: "\<not> isNullish node" by (rule isObject_not_nullish)
  define nxt where "nxt = nextNode node seg"
  obtain e c where ec: "deleteNode nxt (s # rest) = (e, c)" by force
  define node1 where "node1 = (if isObject nxt then withChild node seg c else node)"
  have r: "snd (deleteNode node (seg # s # rest)) = (if e then prune node1 seg else node1)"
    using nn ec by (simp add: deleteNode_step nxt_def node1_def Let_def)
  have a1: "isArray (getProp node1 seg)"
  proof (cases "isObject nxt")
    case True
    then have "nxt = getProp node seg" by (auto simp: nxt_def nextNode_eq split: if_splits)
    with assms deleteNode_kind[of nxt "s # rest"] ec have "isArray c" by simp
    with True o show ?thesis by (simp add: node1_def)
  next
    case False
    with assms show ?thesis by (simp add: node1_def)
  qed
  then have "getProp node1 seg \<noteq> Obj []" by auto
  with a1 show ?thesis unfolding r by (simp add: prune_eq)
qed

text \<open>
  \<open>deleteNodeE\<close> raises only at the \<^verbatim>\<open>length\<close> of an array: on a path without the segment
  \<^verbatim>\<open>length\<close> it returns what \<open>deleteNode\<close> gives, and whenever it returns, it returns that.
\<close>

lemma pruneE_eq:
  "pruneE node seg = (if getProp node seg = Obj [] then delPropE node seg else Inr node)"
  by (cases node) (auto simp: pruneE_def prunable_iff isIndex_propKey)

lemma deleteNodeE_last:
  "deleteNodeE node [seg] =
     (if isNullish node then Inr (True, node)
      else case delPropE node seg of Inl e \<Rightarrow> Inl e | Inr n1 \<Rightarrow> Inr (reportEmpty n1, n1))"
  by (cases node) (auto simp: isIndex_propKey delPropE_def)

lemma deleteNodeE_step:
  "deleteNodeE node (seg # s # rest) =
     (if isNullish node then Inr (True, node)
      else case deleteNodeE (nextNode node seg) (s # rest) of
             Inl e \<Rightarrow> Inl e
           | Inr returned \<Rightarrow>
               let node1 = (if isObject (nextNode node seg)
                            then withChild node seg (snd returned) else node)
               in (case (if fst returned then pruneE node1 seg else Inr node1) of
                     Inl e \<Rightarrow> Inl e
                   | Inr node2 \<Rightarrow> Inr (reportEmpty node2, node2)))"
  by (auto simp: isIndex_propKey Let_def split: prod.splits sum.splits)

lemma deleteNodeE_nullish: "isNullish node \<Longrightarrow> deleteNodeE node segs = Inr (True, node)"
  by (cases "(node, segs)" rule: deleteNodeE.cases) auto

declare deleteNodeE.simps(2,3) [simp del]

lemma deleteNodeE_no_length:
  "''length'' \<notin> set segs \<Longrightarrow> deleteNodeE node segs = Inr (deleteNode node segs)"
proof (induction segs arbitrary: node)
  case Nil
  then show ?case by simp
next
  case (Cons seg rest)
  show ?case
  proof (cases rest)
    case Nil
    with Cons.prems show ?thesis
      by (simp add: deleteNodeE_last deleteNode_last delPropE_def)
  next
    case (Cons s rest')
    from Cons.prems have "''length'' \<notin> set rest" "seg \<noteq> ''length''" by auto
    then have ih: "deleteNodeE (nextNode node seg) (s # rest')
                     = Inr (deleteNode (nextNode node seg) (s # rest'))"
      using Cons.IH[of "nextNode node seg"] Cons by simp
    show ?thesis
      unfolding Cons
      using \<open>seg \<noteq> ''length''\<close>
      by (simp add: deleteNodeE_step ih deleteNode_step pruneE_eq prune_eq delPropE_def Let_def
          split: prod.splits)
  qed
qed

lemma deleteNodeE_returns:
  "deleteNodeE node segs = Inr r \<Longrightarrow> deleteNode node segs = r"
proof (induction segs arbitrary: node r)
  case Nil
  then show ?case by auto
next
  case (Cons seg rest)
  show ?case
  proof (cases rest)
    case Nil
    with Cons.prems show ?thesis
      by (auto simp: deleteNodeE_last deleteNode_last delPropE_def split: if_splits)
  next
    case (Cons s rest')
    show ?thesis
    proof (cases "isNullish node")
      case True
      with Cons.prems show ?thesis by (simp add: deleteNode_nullish deleteNodeE_nullish)
    next
      case False
      with Cons.prems Cons obtain r' where r': "deleteNodeE (nextNode node seg) (s # rest') = Inr r'"
        by (auto simp: deleteNodeE_step split: sum.splits)
      then have d: "deleteNode (nextNode node seg) (s # rest') = r'"
        using Cons.IH Cons by simp
      from Cons.prems show ?thesis
        unfolding Cons using False
        by (auto simp: deleteNodeE_step r' d deleteNode_step pruneE_eq prune_eq delPropE_def Let_def
            split: prod.splits if_splits sum.splits)
    qed
  qed
qed

text \<open>The raise is reached: deleting \<^verbatim>\<open>a.length\<close> from \<^verbatim>\<open>{a: [1, 2]}\<close> raises.\<close>

lemma deleteInE_length:
  "deleteInE (Obj [(''a'', Arr 2 [(''0'', Num (Fin 1)), (''1'', Num (Fin 2))])]) ''a.length''
     = Inl TypeError"
  by (simp add: deleteInE_def deleteNodeE_step deleteNodeE_last nextNode_eq delPropE_def
      isNullish_def not_isIndex_a)

lemma nextNode_not_object: "\<not> isObject c \<Longrightarrow> nextNode c s = Undefined"
  by (cases c) (simp_all add: nextNode_eq)

lemma walk_not_object: "\<not> isObject c \<Longrightarrow> foldl nextNode c xs \<noteq> Obj []"
proof (induction xs arbitrary: c)
  case Nil
  then show ?case by auto
next
  case (Cons x xs)
  then show ?case by (simp add: nextNode_not_object)
qed

lemma walk_after_delete:
  "0 < k \<Longrightarrow> k < length segs \<Longrightarrow>
   foldl nextNode (snd (deleteNode node segs)) (take k segs) \<noteq> Obj []"
proof (induction segs arbitrary: node k)
  case Nil
  then show ?case by simp
next
  case (Cons seg rest)
  from Cons.prems obtain s rest' where rest: "rest = s # rest'" by (cases rest) auto
  from Cons.prems obtain k' where k: "k = Suc k'" by (cases k) auto
  define n1 where "n1 = nextNode (snd (deleteNode node (seg # rest))) seg"
  have f: "foldl nextNode (snd (deleteNode node (seg # rest))) (take k (seg # rest))
             = foldl nextNode n1 (take k' rest)"
    by (simp add: k n1_def)
  show ?case
  proof (cases "isObject n1")
    case False
    then show ?thesis unfolding f by (rule walk_not_object)
  next
    case True
    then have n1: "n1 = snd (deleteNode (nextNode node seg) rest)"
      unfolding n1_def rest by (rule nextNode_after_delete)
    show ?thesis
    proof (cases "k' = 0")
      case True
      have "n1 \<noteq> Obj []"
        using slot_not_empty_object[of node seg s rest'] \<open>isObject n1\<close>
        by (auto simp: n1_def rest nextNode_eq split: if_splits)
      with True show ?thesis unfolding f by simp
    next
      case False
      with Cons.prems k have "0 < k'" "k' < length rest" by simp_all
      then show ?thesis unfolding f n1 by (rule Cons.IH)
    qed
  qed
qed

text \<open>
  C3, as amended. After \<^verbatim>\<open>deleteIn(root, path)\<close> no object that the walk of the delete reaches
  below the root is empty: an object that the delete leaves without a property is removed
  from its parent, and so on upward, as in \<^verbatim>\<open>{a: {b: {c: 1}}}\<close> with \<^verbatim>\<open>a.b.c\<close>, which leaves
  \<^verbatim>\<open>{}\<close>. Arrays are exempt: an array stays where it is even when the delete removed its
  last element. The root is never removed: it stays an object, or an array, as it was.
\<close>

theorem deleteIn_leaves_no_empty_object:
  "(0 < k \<and> k < length (splitPath P) \<longrightarrow>
      foldl nextNode (snd (deleteIn R P)) (take k (splitPath P)) \<noteq> Obj [])
   \<and> isObject (snd (deleteIn R P)) = isObject R
   \<and> isArray (snd (deleteIn R P)) = isArray R
   \<and> deleteIn (Obj [(''a'', Obj [(''b'', Obj [(''c'', Num (Fin 1))])])]) ''a.b.c'' = (True, Obj [])"
proof (intro conjI impI)
  assume "0 < k \<and> k < length (splitPath P)"
  then show "foldl nextNode (snd (deleteIn R P)) (take k (splitPath P)) \<noteq> Obj []"
    unfolding deleteIn_def by (intro walk_after_delete) simp_all
next
  show "isObject (snd (deleteIn R P)) = isObject R" "isArray (snd (deleteIn R P)) = isArray R"
    by (simp_all add: deleteIn_def deleteNode_kind)
next
  show "deleteIn (Obj [(''a'', Obj [(''b'', Obj [(''c'', Num (Fin 1))])])]) ''a.b.c'' = (True, Obj [])"
    by (simp add: deleteIn_def deleteNode_step deleteNode_last nextNode_eq prune_eq
        reportEmpty_iff isNullish_def not_isIndex_a not_isIndex_b not_isIndex_c)
qed

theorem deleteIn_leaves_no_empty_object_witness:
  "(0::nat) < 1 \<and> 1 < length (splitPath ''a.b'')
   \<and> deleteIn (Obj [(''a'', Obj [(''b'', Num (Fin 1)), (''c'', Num (Fin 2))])]) ''a.b''
       = (False, Obj [(''a'', Obj [(''c'', Num (Fin 2))])])
   \<and> foldl nextNode
        (snd (deleteIn (Obj [(''a'', Obj [(''b'', Num (Fin 1)), (''c'', Num (Fin 2))])]) ''a.b''))
        (take 1 (splitPath ''a.b'')) = Obj [(''c'', Num (Fin 2))]"
  using deleteIn_leaves_no_empty_object
    [of 1 "''a.b''" "Obj [(''a'', Obj [(''b'', Num (Fin 1)), (''c'', Num (Fin 2))])]"]
  by (simp add: deleteIn_def deleteNode_step deleteNode_last nextNode_eq prune_eq
      reportEmpty_iff isNullish_def not_isIndex_a not_isIndex_b)

text \<open>
  C3, as stated, fails for arrays: deleting \<^verbatim>\<open>a.0\<close> from \<^verbatim>\<open>{a: [1]}\<close> leaves under \<^verbatim>\<open>a\<close> an array
  without any element, and the array is still there.
\<close>

theorem deleteIn_leaves_empty_array_counterexample:
  "deleteIn (Obj [(''a'', Arr 1 [(''0'', Num (Fin 1))])]) ''a.0'' = (False, Obj [(''a'', Arr 1 [])])
   \<and> isArray (getIn (snd (deleteIn (Obj [(''a'', Arr 1 [(''0'', Num (Fin 1))])]) ''a.0'')) ''a'')
   \<and> keyCount (getIn (snd (deleteIn (Obj [(''a'', Arr 1 [(''0'', Num (Fin 1))])]) ''a.0'')) ''a'') = 0"
  by (simp add: deleteIn_def getIn_def deleteNode_step deleteNode_last nextNode_eq prune_eq
      reportEmpty_iff isNullish_def not_isIndex_a isIndex_0)

text \<open>
  C4, as amended. Arrays are never pruned and never reported empty: a slot on the way of
  a delete that holds an array holds an array after the delete, whatever the delete
  removed below it, and \<^verbatim>\<open>deleteNode\<close> returns \<^verbatim>\<open>false\<close> whenever its node is an array, whatever
  is left of the array. On \<^verbatim>\<open>{a: [1, 2]}\<close>, deleting \<^verbatim>\<open>a.0\<close> and then \<^verbatim>\<open>a.1\<close> leaves under \<^verbatim>\<open>a\<close>
  the array with both slots removed: it has no element, it keeps its length 2 (two
  holes), and it is not removed.
\<close>

theorem deleteNode_keeps_arrays:
  "(isArray (getProp node seg) \<longrightarrow>
      isArray (getProp (snd (deleteNode node (seg # s # rest))) seg))
   \<and> fst (deleteNode (Arr n ps) segs) = False
   \<and> deleteIn (Obj [(''a'', Arr 2 [(''0'', Num (Fin 1)), (''1'', Num (Fin 2))])]) ''a.0''
       = (False, Obj [(''a'', Arr 2 [(''1'', Num (Fin 2))])])
   \<and> deleteIn (Obj [(''a'', Arr 2 [(''1'', Num (Fin 2))])]) ''a.1''
       = (False, Obj [(''a'', Arr 2 [])])"
proof (intro conjI impI)
  assume "isArray (getProp node seg)"
  then show "isArray (getProp (snd (deleteNode node (seg # s # rest))) seg)"
    by (rule deleteNode_array_slot)
next
  have "isArray (snd (deleteNode (Arr n ps) segs))" by (simp add: deleteNode_kind)
  then have "snd (deleteNode (Arr n ps) segs) \<noteq> Obj []" by auto
  then show "fst (deleteNode (Arr n ps) segs) = False"
    by (simp add: fst_deleteNode isNullish_def)
next
  show "deleteIn (Obj [(''a'', Arr 2 [(''0'', Num (Fin 1)), (''1'', Num (Fin 2))])]) ''a.0''
       = (False, Obj [(''a'', Arr 2 [(''1'', Num (Fin 2))])])"
    by (simp add: deleteIn_def deleteNode_step deleteNode_last nextNode_eq prune_eq
        reportEmpty_iff isNullish_def not_isIndex_a isIndex_0)
next
  show "deleteIn (Obj [(''a'', Arr 2 [(''1'', Num (Fin 2))])]) ''a.1''
       = (False, Obj [(''a'', Arr 2 [])])"
    by (simp add: deleteIn_def deleteNode_step deleteNode_last nextNode_eq prune_eq
        reportEmpty_iff isNullish_def not_isIndex_a isIndex_1)
qed

theorem deleteNode_keeps_arrays_witness:
  "isArray (getProp (Obj [(''0'', Arr 0 [])]) ''0'')
   \<and> deleteNode (Obj [(''0'', Arr 0 [])]) [''0'', ''x''] = (False, Obj [(''0'', Arr 0 [])])
   \<and> isArray (getProp (snd (deleteNode (Obj [(''0'', Arr 0 [])]) [''0'', ''x''])) ''0'')
   \<and> isArray (getProp (Obj [(''a'', Arr 1 [(''0'', Obj [(''x'', Num (Fin 1))])])]) ''a'')
   \<and> deleteIn (Obj [(''a'', Arr 1 [(''0'', Obj [(''x'', Num (Fin 1))])])]) ''a.0.x''
       = (False, Obj [(''a'', Arr 1 [])])"
  using deleteNode_keeps_arrays [of "Obj [(''0'', Arr 0 [])]" "''0''" "''x''" "[]"]
  by (simp add: deleteIn_def deleteNode_step deleteNode_last nextNode_eq prune_eq
      reportEmpty_iff isNullish_def isIndex_0 not_isIndex_a)

text \<open>
  C4, as stated, says that the two deletes leave \<^verbatim>\<open>{a: []}\<close>. The array they leave has length
  2, the empty array \<^verbatim>\<open>[]\<close> has length 0.
\<close>

theorem deleteNode_keeps_arrays_counterexample:
  "snd (deleteIn (snd (deleteIn
      (Obj [(''a'', Arr 2 [(''0'', Num (Fin 1)), (''1'', Num (Fin 2))])]) ''a.0'')) ''a.1'')
     \<noteq> Obj [(''a'', Arr 0 [])]"
  by (simp add: deleteIn_def deleteNode_step deleteNode_last nextNode_eq prune_eq
      reportEmpty_iff isNullish_def not_isIndex_a isIndex_0 isIndex_1)

text \<open>
  C7, as amended. On a path none of whose segments names a built-in member, a delete
  raises nothing: it returns, with the result of \<open>deleteNode\<close>. On \<^verbatim>\<open>null\<close> or \<^verbatim>\<open>undefined\<close>
  \<^verbatim>\<open>deleteNode\<close> returns \<^verbatim>\<open>true\<close> and changes nothing. When the walk of the delete (which goes
  into a child only under an index segment on an array or a key segment on an object or
  an array) reaches \<^verbatim>\<open>null\<close> or \<^verbatim>\<open>undefined\<close> before the last segment, the root is left as it
  was, provided that no proper, non-empty prefix of the path leads to an empty object.
  (An empty object on the path is pruned.)
\<close>

theorem deleteIn_absent_path:
  "(dataPath P \<longrightarrow> deleteInE R P = Inr (deleteIn R P))
   \<and> (dataPath P
        \<and> (\<exists>j<length (splitPath P). isNullish (foldl nextNode R (take j (splitPath P))))
        \<and> (\<forall>k. 0 < k \<and> k < length (splitPath P) \<longrightarrow> getLoop R (take k (splitPath P)) \<noteq> Obj [])
      \<longrightarrow> deleteInE R P = Inr (fst (deleteIn R P), R))
   \<and> (isNullish node \<longrightarrow> deleteNodeE node segs = Inr (True, node))"
proof (intro conjI impI)
  assume "dataPath P"
  then show "deleteInE R P = Inr (deleteIn R P)"
    unfolding deleteInE_def deleteIn_def
    by (intro deleteNodeE_no_length dataPath_no_length)
next
  assume a: "dataPath P
        \<and> (\<exists>j<length (splitPath P). isNullish (foldl nextNode R (take j (splitPath P))))
        \<and> (\<forall>k. 0 < k \<and> k < length (splitPath P) \<longrightarrow> getLoop R (take k (splitPath P)) \<noteq> Obj [])"
  then have "deleteInE R P = Inr (deleteIn R P)"
    unfolding deleteInE_def deleteIn_def
    by (intro deleteNodeE_no_length dataPath_no_length) simp
  moreover from a have "snd (deleteIn R P) = R"
    unfolding deleteIn_def by (intro deleteNode_absent_unchanged) simp_all
  ultimately show "deleteInE R P = Inr (fst (deleteIn R P), R)"
    by (simp add: prod_eq_iff)
next
  assume "isNullish node"
  then show "deleteNodeE node segs = Inr (True, node)" by (rule deleteNodeE_nullish)
qed

theorem deleteIn_absent_path_witness:
  "dataPath ''a.b.c''
   \<and> isNullish (foldl nextNode (Obj [(''a'', Obj [(''c'', Num (Fin 1))])]) (take 2 (splitPath ''a.b.c'')))
   \<and> getLoop (Obj [(''a'', Obj [(''c'', Num (Fin 1))])]) (take 1 (splitPath ''a.b.c'')) \<noteq> Obj []
   \<and> getLoop (Obj [(''a'', Obj [(''c'', Num (Fin 1))])]) (take 2 (splitPath ''a.b.c'')) \<noteq> Obj []
   \<and> deleteInE (Obj [(''a'', Obj [(''c'', Num (Fin 1))])]) ''a.b.c''
       = Inr (False, Obj [(''a'', Obj [(''c'', Num (Fin 1))])])
   \<and> deleteNodeE Undefined [''c''] = Inr (True, Undefined)
   \<and> dataPath ''a.0.x''
   \<and> isNullish (foldl nextNode (Obj [(''a'', Obj [(''0'', Num (Fin 5))])]) (take 2 (splitPath ''a.0.x'')))
   \<and> getLoop (Obj [(''a'', Obj [(''0'', Num (Fin 5))])]) (take 1 (splitPath ''a.0.x'')) \<noteq> Obj []
   \<and> getLoop (Obj [(''a'', Obj [(''0'', Num (Fin 5))])]) (take 2 (splitPath ''a.0.x'')) \<noteq> Obj []
   \<and> deleteInE (Obj [(''a'', Obj [(''0'', Num (Fin 5))])]) ''a.0.x''
       = Inr (False, Obj [(''a'', Obj [(''0'', Num (Fin 5))])])"
proof -
  let ?R = "Obj [(''a'', Obj [(''c'', Num (Fin 1))])]"
  have s: "splitPath ''a.b.c'' = [''a'', ''b'', ''c'']" by simp
  have d: "dataPath ''a.b.c''" by (simp add: dataPath_def builtin_defs)
  have n: "isNullish (foldl nextNode ?R (take 2 (splitPath ''a.b.c'')))"
    unfolding s by (simp add: nextNode_eq isNullish_def not_isIndex_a not_isIndex_b)
  then have h1: "\<exists>j<length (splitPath ''a.b.c''). isNullish (foldl nextNode ?R (take j (splitPath ''a.b.c'')))"
    unfolding s by (intro exI[of _ 2]) simp
  have g: "getLoop ?R (take 1 (splitPath ''a.b.c'')) \<noteq> Obj []
           \<and> getLoop ?R (take 2 (splitPath ''a.b.c'')) \<noteq> Obj []"
    unfolding s by (simp add: isNullish_def not_isIndex_a not_isIndex_b)
  have h2: "\<forall>k. 0 < k \<and> k < length (splitPath ''a.b.c'')
              \<longrightarrow> getLoop ?R (take k (splitPath ''a.b.c'')) \<noteq> Obj []"
  proof (intro allI impI)
    fix k :: nat assume "0 < k \<and> k < length (splitPath ''a.b.c'')"
    then have "k = 1 \<or> k = 2" unfolding s by auto
    with g show "getLoop ?R (take k (splitPath ''a.b.c'')) \<noteq> Obj []" by auto
  qed
  have u: "isNullish Undefined" by (simp add: isNullish_def)
  from deleteIn_absent_path [of "''a.b.c''" ?R Undefined "[''c'']"] d h1 h2 u
  have "deleteInE ?R ''a.b.c'' = Inr (fst (deleteIn ?R ''a.b.c''), ?R)
        \<and> deleteNodeE Undefined [''c''] = Inr (True, Undefined)"
    by blast
  moreover have "fst (deleteIn ?R ''a.b.c'') = False"
    by (simp add: deleteIn_def deleteNode_step deleteNode_last nextNode_eq prune_eq
        reportEmpty_iff isNullish_def not_isIndex_a not_isIndex_b not_isIndex_c)
  ultimately have first: "deleteInE ?R ''a.b.c'' = Inr (False, ?R)
        \<and> deleteNodeE Undefined [''c''] = Inr (True, Undefined)"
    by simp
  let ?Q = "Obj [(''a'', Obj [(''0'', Num (Fin 5))])]"
  have s': "splitPath ''a.0.x'' = [''a'', ''0'', ''x'']" by simp
  have d': "dataPath ''a.0.x''" by (simp add: dataPath_def builtin_defs)
  have n': "isNullish (foldl nextNode ?Q (take 2 (splitPath ''a.0.x'')))"
    unfolding s' by (simp add: nextNode_eq isNullish_def not_isIndex_a isIndex_0)
  then have h1': "\<exists>j<length (splitPath ''a.0.x''). isNullish (foldl nextNode ?Q (take j (splitPath ''a.0.x'')))"
    unfolding s' by (intro exI[of _ 2]) simp
  have g': "getLoop ?Q (take 1 (splitPath ''a.0.x'')) \<noteq> Obj []
           \<and> getLoop ?Q (take 2 (splitPath ''a.0.x'')) \<noteq> Obj []"
    unfolding s' by (simp add: isNullish_def not_isIndex_a isIndex_0 propKey_0)
  have h2': "\<forall>k. 0 < k \<and> k < length (splitPath ''a.0.x'')
              \<longrightarrow> getLoop ?Q (take k (splitPath ''a.0.x'')) \<noteq> Obj []"
  proof (intro allI impI)
    fix k :: nat assume "0 < k \<and> k < length (splitPath ''a.0.x'')"
    then have "k = 1 \<or> k = 2" unfolding s' by auto
    with g' show "getLoop ?Q (take k (splitPath ''a.0.x'')) \<noteq> Obj []" by auto
  qed
  from deleteIn_absent_path [of "''a.0.x''" ?Q] d' h1' h2'
  have "deleteInE ?Q ''a.0.x'' = Inr (fst (deleteIn ?Q ''a.0.x''), ?Q)"
    by blast
  moreover have "fst (deleteIn ?Q ''a.0.x'') = False"
    by (simp add: deleteIn_def deleteNode_step deleteNode_last nextNode_eq prune_eq
        reportEmpty_iff isNullish_def not_isIndex_a isIndex_0)
  ultimately have second: "deleteInE ?Q ''a.0.x'' = Inr (False, ?Q)" by simp
  from d n g first d' n' g' second show ?thesis by blast
qed

text \<open>
  C7, as stated, fails when the path runs through an object that is already empty: on
  \<^verbatim>\<open>{a: {}}\<close> the path \<^verbatim>\<open>a.b.c\<close> addresses nothing (\<^verbatim>\<open>a.b\<close> is \<^verbatim>\<open>undefined\<close>), and the delete
  removes \<^verbatim>\<open>a\<close>.
\<close>

theorem deleteIn_absent_path_counterexample:
  "getIn (Obj [(''a'', Obj [])]) ''a.b'' = Undefined
   \<and> deleteIn (Obj [(''a'', Obj [])]) ''a.b.c'' = (True, Obj [])
   \<and> snd (deleteIn (Obj [(''a'', Obj [])]) ''a.b.c'') \<noteq> Obj [(''a'', Obj [])]"
  by (simp add: deleteIn_def getIn_def deleteNode_step deleteNode_last nextNode_eq prune_eq
      reportEmpty_iff isNullish_def not_isIndex_a not_isIndex_b not_isIndex_c)

text \<open>
  C8. For every root and path, a second \<^verbatim>\<open>deleteIn\<close> with the same path leaves the root
  exactly as the first one left it.
\<close>

theorem deleteIn_idempotent:
  "snd (deleteIn (snd (deleteIn R P)) P) = snd (deleteIn R P)"
  unfolding deleteIn_def by (rule deleteNode_idem)

subsection \<open>isIndex\<close>

text \<open>
  C5, as amended. \<open>isIndex\<close> holds exactly when the string of the number read from the
  segment is the segment. For a segment of at most 15 decimal digits this is the
  specification's wording: the segment is an index segment if and only if it is the
  canonical decimal representation of a non-negative integer, so \<^verbatim>\<open>01\<close> is a key segment.
  The other segments are not all key segments: a minus sign followed by the canonical
  decimal of a positive integer (\<^verbatim>\<open>-1\<close>), \<^verbatim>\<open>NaN\<close> and \<^verbatim>\<open>Infinity\<close> are index segments. Every
  other segment that starts with neither a digit nor a minus sign, such as \<^verbatim>\<open>items\<close>, is a
  key segment.
\<close>

theorem isIndex_classification:
  "(list_all isDigit s \<and> length s \<le> 15 \<longrightarrow> isIndex s = specIndexSegment s)
   \<and> (0 < n \<and> n < 10 ^ 15 \<longrightarrow>
        isIndex (CHR ''-'' # decimal n) \<and> \<not> specIndexSegment (CHR ''-'' # decimal n))
   \<and> (isIndex s \<and> \<not> isDigit (hd s) \<and> hd s \<noteq> CHR ''-'' \<longrightarrow> s = ''NaN'' \<or> s = ''Infinity'')
   \<and> isIndex ''NaN'' \<and> isIndex ''Infinity'' \<and> \<not> isIndex ''01'' \<and> \<not> isIndex ''items''"
  using isIndex_digits isIndex_minus_decimal not_spec_minus isIndex_head isIndex_NaN
    isIndex_Infinity not_isIndex_01 not_isIndex_items
  by blast

theorem isIndex_classification_witness:
  "list_all isDigit ''10'' \<and> length ''10'' \<le> 15 \<and> isIndex ''10'' \<and> specIndexSegment ''10''
   \<and> (0::nat) < 1 \<and> (1::nat) < 10 ^ 15 \<and> decimal 1 = ''1'' \<and> isIndex ''-1''
   \<and> isIndex ''NaN'' \<and> \<not> isDigit (hd ''NaN'') \<and> hd ''NaN'' \<noteq> CHR ''-''"
proof -
  have d: "decimal 10 = ''10''"
    by (subst decimal.simps) (simp add: digitChar_def decimal_1)
  have "digitsValue 10 ''10'' = 10" by (simp add: digitsValue_def digitOf_def)
  then have s: "specIndexSegment ''10''" by (simp add: specIndexSegment_def d isDigit_def)
  from isIndex_classification [of "''10''" 1] isIndex_classification [of "''NaN''" 1] s d
  show ?thesis
    by (simp add: isDigit_def decimal_1)
qed

text \<open>
  C5, as stated, fails for \<^verbatim>\<open>-1\<close>: it is not the decimal representation of a non-negative
  integer, and \<open>isIndex\<close> holds for it, because \<^verbatim>\<open>String(+"-1")\<close> is \<^verbatim>\<open>"-1"\<close>.
\<close>

theorem isIndex_classification_counterexample:
  "isIndex ''-1'' \<and> \<not> specIndexSegment ''-1''"
  using isIndex_minus_decimal [of 1] by (simp add: decimal_1 not_spec_minus)

end
